theory Spec2Isabelle
  imports Complex_Main
begin

section \<open>Data model\<close>

text \<open>
  The program is \<^verbatim>\<open>src/app.py\<close>. A decoded embroidery pattern carries an ordered list of
  stitch records \<^verbatim>\<open>(x, y, cmd)\<close> and a thread list. Coordinates are Python numbers; they
  are modelled as reals, so \<^verbatim>\<open>(dx * dx + dy * dy) ** 0.5\<close> is \<open>sqrt\<close>, and the rounding of
  binary64 arithmetic is modelled for the normalizer, whose bounds depend on it. The command is
  the integer the code compares with \<^verbatim>\<open>0\<close> (STITCH) and \<^verbatim>\<open>5\<close> (COLOR_CHANGE).
\<close>

type_synonym stitch = "real \<times> real \<times> int"
type_synonym point = "real \<times> real"
type_synonym segment = "real \<times> real \<times> real \<times> real"
type_synonym block = "segment list"

record thread =
  color :: int

record pattern =
  stitches :: "stitch list"
  threadlist :: "thread list"

definition MAX_BLOCKS :: nat where
  "MAX_BLOCKS = 20"

text \<open>
  \<^verbatim>\<open>JUMP_DISTANCE_THRESHOLD\<close> is read from the environment once at start-up; the functions
  below take it as the parameter \<open>thr\<close>. This is its default.
\<close>

definition JUMP_DISTANCE_THRESHOLD_default :: real where
  "JUMP_DISTANCE_THRESHOLD_default = 45"

section \<open>Geometry extractor: \<^verbatim>\<open>pattern_to_blocks_clean\<close>\<close>

text \<open>
  The loop state is the three local variables \<^verbatim>\<open>blocks\<close>, \<^verbatim>\<open>current\<close> and \<^verbatim>\<open>last\<close>
  (\<^verbatim>\<open>None\<close> or a point; the field \<open>last_point\<close>). \<open>stitch_step\<close> is one iteration of
  the \<^verbatim>\<open>for\<close> loop body, \<open>ext_finish\<close> the final \<^verbatim>\<open>if current:\<close> after the loop.
\<close>

record ext_state =
  blocks :: "block list"
  current :: block
  last_point :: "point option"

definition ext_init :: ext_state where
  "ext_init = \<lparr>blocks = [], current = [], last_point = None\<rparr>"

definition stitch_step :: "real \<Rightarrow> ext_state \<Rightarrow> stitch \<Rightarrow> ext_state" where
  "stitch_step thr s st =
     (case st of (x, y, cmd) \<Rightarrow>
        if cmd = 0 then
          (case last_point s of
             None \<Rightarrow> s\<lparr>last_point := Some (x, y)\<rparr>
           | Some (x0, y0) \<Rightarrow>
               (let dx = x - x0;
                    dy = y - y0;
                    dist = sqrt (dx * dx + dy * dy)
                in if dist > thr then s\<lparr>last_point := Some (x, y)\<rparr>
                   else s\<lparr>current := current s @ [(x0, y0, x, y)], last_point := Some (x, y)\<rparr>))
        else if cmd = 5 then
          (if current s \<noteq> []
           then s\<lparr>blocks := blocks s @ [current s], current := [], last_point := None\<rparr>
           else s\<lparr>last_point := None\<rparr>)
        else s\<lparr>last_point := None\<rparr>)"

definition ext_finish :: "ext_state \<Rightarrow> block list" where
  "ext_finish s = (if current s \<noteq> [] then blocks s @ [current s] else blocks s)"

definition pattern_to_blocks_clean :: "real \<Rightarrow> pattern \<Rightarrow> block list" where
  "pattern_to_blocks_clean thr p = ext_finish (foldl (stitch_step thr) ext_init (stitches p))"

definition get_block_count :: "real \<Rightarrow> pattern \<Rightarrow> nat" where
  "get_block_count thr p = min (length (pattern_to_blocks_clean thr p)) MAX_BLOCKS"

text \<open>The number of COLOR_CHANGE records of a stitch list, and the Euclidean distance.\<close>

definition color_changes :: "stitch list \<Rightarrow> nat" where
  "color_changes sts = length (filter (\<lambda>(x, y, cmd). cmd = 5) sts)"

definition distance :: "point \<Rightarrow> point \<Rightarrow> real" where
  "distance a b = sqrt ((fst b - fst a) * (fst b - fst a) + (snd b - snd a) * (snd b - snd a))"

text \<open>
  For a run of points visited in order: every consecutive pair is within the threshold, and
  the segments that join consecutive points.
\<close>

fun consecutive_within :: "real \<Rightarrow> point list \<Rightarrow> bool" where
  "consecutive_within thr (a # b # r) = (distance a b \<le> thr \<and> consecutive_within thr (b # r))"
| "consecutive_within thr r = True"

fun path_segments :: "point list \<Rightarrow> segment list" where
  "path_segments ((x0, y0) # (x, y) # r) = (x0, y0, x, y) # path_segments ((x, y) # r)"
| "path_segments r = []"

definition stitch_point :: "stitch \<Rightarrow> point" where
  "stitch_point st = (case st of (x, y, cmd) \<Rightarrow> (x, y))"

definition stitch_cmd :: "stitch \<Rightarrow> int" where
  "stitch_cmd st = (case st of (x, y, cmd) \<Rightarrow> cmd)"

text \<open>
  The colour runs of a stitch list are the stretches between COLOR_CHANGE records, one more
  than there are such records; \<open>run_segments\<close> is what the loop draws from a run started
  afresh. A run draws (\<open>run_draws thr None\<close>) when in it some STITCH record comes directly
  after another STITCH record, at a distance within the threshold; \<open>drawn_runs\<close> keeps the
  runs that draw.
  \<open>striped_design n\<close> is a design of \<open>n\<close> colour changes, each of whose runs draws one segment.
\<close>

fun split_runs :: "stitch list \<Rightarrow> stitch list list" where
  "split_runs [] = [[]]"
| "split_runs (st # sts) =
     (if stitch_cmd st = 5 then [] # split_runs sts
      else (case split_runs sts of [] \<Rightarrow> [[st]] | r # rs \<Rightarrow> (st # r) # rs))"

definition run_segments :: "real \<Rightarrow> stitch list \<Rightarrow> block" where
  "run_segments thr run = current (foldl (stitch_step thr) ext_init run)"

fun run_draws :: "real \<Rightarrow> point option \<Rightarrow> stitch list \<Rightarrow> bool" where
  "run_draws thr l [] = False"
| "run_draws thr l (st # run) =
     (if stitch_cmd st = 0
      then (case l of None \<Rightarrow> False | Some a \<Rightarrow> distance a (stitch_point st) \<le> thr)
             \<or> run_draws thr (Some (stitch_point st)) run
      else run_draws thr None run)"

definition drawn_runs :: "real \<Rightarrow> stitch list \<Rightarrow> stitch list list" where
  "drawn_runs thr sts = filter (run_draws thr None) (split_runs sts)"

definition striped_design :: "nat \<Rightarrow> stitch list" where
  "striped_design n =
     concat (replicate n [(0, 0, 0), (1, 0, 0), (1, 0, 5)]) @ [(0, 0, 0), (1, 0, 0)]"

section \<open>Canvas normalizer: \<^verbatim>\<open>normalize_blocks\<close>\<close>

text \<open>
  \<open>endpoints\<close> is the first loop, which collects \<^verbatim>\<open>pts\<close> (\<open>block_points\<close> is its inner
  loop over one block). \<open>py_or_1\<close> is Python's \<^verbatim>\<open>v or 1\<close> on a number: \<^verbatim>\<open>v\<close> when it is non-zero, else \<^verbatim>\<open>1\<close>. \<open>norm_width\<close>,
  \<open>norm_height\<close> and \<open>norm_scale\<close> are the local variables \<^verbatim>\<open>w\<close>, \<^verbatim>\<open>h\<close> and \<^verbatim>\<open>scale\<close>.
\<close>

definition block_points :: "block \<Rightarrow> point list" where
  "block_points b = concat (map (\<lambda>(x1, y1, x2, y2). [(x1, y1), (x2, y2)]) b)"

definition endpoints :: "block list \<Rightarrow> point list" where
  "endpoints bs = concat (map block_points bs)"

definition py_or_1 :: "real \<Rightarrow> real" where
  "py_or_1 v = (if v = 0 then 1 else v)"

definition extent_x :: "point list \<Rightarrow> real" where
  "extent_x pts = Max (set (map fst pts)) - Min (set (map fst pts))"

definition extent_y :: "point list \<Rightarrow> real" where
  "extent_y pts = Max (set (map snd pts)) - Min (set (map snd pts))"

definition norm_width :: "point list \<Rightarrow> real" where
  "norm_width pts = py_or_1 (extent_x pts)"

definition norm_height :: "point list \<Rightarrow> real" where
  "norm_height pts = py_or_1 (extent_y pts)"

definition norm_scale :: "point list \<Rightarrow> real \<Rightarrow> real \<Rightarrow> real" where
  "norm_scale pts padding canvas = (canvas - 2 * padding) / max (norm_width pts) (norm_height pts)"

definition normalize_blocks :: "block list \<Rightarrow> real \<Rightarrow> real \<Rightarrow> block list \<times> real" where
  "normalize_blocks bs padding canvas =
     (let pts = endpoints bs in
      if pts = [] then (bs, canvas)
      else
        let minx = Min (set (map fst pts));
            miny = Min (set (map snd pts));
            scale = norm_scale pts padding canvas
        in (map (map (\<lambda>(x1, y1, x2, y2).
                   ((x1 - minx) * scale + padding, (y1 - miny) * scale + padding,
                    (x2 - minx) * scale + padding, (y2 - miny) * scale + padding))) bs,
            canvas))"

subsection \<open>The normalizer in binary64 arithmetic\<close>

text \<open>
  \<open>normalize_blocks\<close> above reads the arithmetic exactly. Python computes in binary64: every
  subtraction, division, multiplication and addition of the function is rounded to the
  nearest number of 53 significant bits, ties to even. \<open>fl\<close> is that rounding (\<open>rne\<close> rounds
  to the nearest integer, ties to even; \<open>ulp53 y\<close> is the spacing of the binary64 numbers
  around \<open>y > 0\<close>); the exponent range is not bounded, so overflow and subnormal numbers are
  left out. \<open>normalize_blocks_rnd rnd\<close> is the function with each operation rounded by \<open>rnd\<close>,
  in the order Python evaluates them; doubling the padding is exact in binary arithmetic.
  \<open>normalize_blocks_fl\<close> is the program; with the identity for \<open>rnd\<close> it is \<open>normalize_blocks\<close>.
  For integer arguments Python subtracts exactly and converts on division and
  multiplication, which is the same single rounding.
\<close>

definition rne :: "real \<Rightarrow> int" where
  "rne m = (let f = \<lfloor>m\<rfloor>; r = m - of_int f
            in if r < 1 / 2 then f else if 1 / 2 < r then f + 1
               else if even f then f else f + 1)"

definition ulp53 :: "real \<Rightarrow> real" where
  "ulp53 y = 2 powr (of_int (\<lfloor>log 2 y\<rfloor> - 52))"

definition fl :: "real \<Rightarrow> real" where
  "fl x = (if x = 0 then 0
           else sgn x * (of_int (rne (\<bar>x\<bar> / ulp53 \<bar>x\<bar>)) * ulp53 \<bar>x\<bar>))"

definition unit_roundoff :: real where
  "unit_roundoff = 1 / 2 ^ 53"

definition normalize_blocks_rnd ::
  "(real \<Rightarrow> real) \<Rightarrow> block list \<Rightarrow> real \<Rightarrow> real \<Rightarrow> block list \<times> real" where
  "normalize_blocks_rnd rnd bs padding canvas =
     (let pts = endpoints bs in
      if pts = [] then (bs, canvas)
      else
        let minx = Min (set (map fst pts)); maxx = Max (set (map fst pts));
            miny = Min (set (map snd pts)); maxy = Max (set (map snd pts));
            w = py_or_1 (rnd (maxx - minx));
            h = py_or_1 (rnd (maxy - miny));
            scale = rnd (rnd (canvas - 2 * padding) / max w h)
        in (map (map (\<lambda>(x1, y1, x2, y2).
                   (rnd (rnd (rnd (x1 - minx) * scale) + padding),
                    rnd (rnd (rnd (y1 - miny) * scale) + padding),
                    rnd (rnd (rnd (x2 - minx) * scale) + padding),
                    rnd (rnd (rnd (y2 - miny) * scale) + padding)))) bs,
            canvas))"

definition normalize_blocks_fl :: "block list \<Rightarrow> real \<Rightarrow> real \<Rightarrow> block list \<times> real" where
  "normalize_blocks_fl = normalize_blocks_rnd fl"

text \<open>
  The tolerance within which the rounded coordinates meet the exact bounds: four roundings
  lie between the inputs and a coordinate.
\<close>

definition rounding_tolerance :: "real \<Rightarrow> real \<Rightarrow> real" where
  "rounding_tolerance p c = ((1 + unit_roundoff) ^ 4 - 1) * (c - 2 * p + \<bar>p\<bar>)"

section \<open>Colour parsing: \<^verbatim>\<open>hex_to_rgb\<close>, \<^verbatim>\<open>hex_to_rgb_int\<close>\<close>

text \<open>
  A Python string is modelled as a \<open>string\<close> whose characters are the code points below 256.
  \<open>is_space\<close> is \<^verbatim>\<open>str.isspace\<close> on that range (tab to carriage return, the four
  separators \<^verbatim>\<open>0x1c\<close> to \<^verbatim>\<open>0x1f\<close>, space, \<^verbatim>\<open>0x85\<close> and \<^verbatim>\<open>0xa0\<close>), so \<open>strip\<close> is
  \<^verbatim>\<open>s.strip()\<close>; \<open>lstrip_hash\<close> is \<^verbatim>\<open>s.lstrip("#")\<close>, which removes every leading
  \<^verbatim>\<open>#\<close>. An \<^verbatim>\<open>HTTPException\<close> carries its status code and its detail text.
\<close>

datatype error = HTTPException int string

definition is_space :: "char \<Rightarrow> bool" where
  "is_space c = (let n = (of_char c :: nat) in
     (9 \<le> n \<and> n \<le> 13) \<or> (28 \<le> n \<and> n \<le> 32) \<or> n = 133 \<or> n = 160)"

definition strip :: "string \<Rightarrow> string" where
  "strip s = rev (dropWhile is_space (rev (dropWhile is_space s)))"

definition lstrip_hash :: "string \<Rightarrow> string" where
  "lstrip_hash s = dropWhile (\<lambda>c. c = CHR ''#'') s"

definition is_hex_digit :: "char \<Rightarrow> bool" where
  "is_hex_digit c = (let n = (of_char c :: nat) in
     (48 \<le> n \<and> n \<le> 57) \<or> (97 \<le> n \<and> n \<le> 102) \<or> (65 \<le> n \<and> n \<le> 70))"

definition hex_val :: "char \<Rightarrow> int" where
  "hex_val c = (let n = (of_char c :: int) in
     if 48 \<le> n \<and> n \<le> 57 then n - 48
     else if 97 \<le> n \<and> n \<le> 102 then n - 87
     else n - 55)"

text \<open>\<^verbatim>\<open>int(h, 16)\<close> on a string of hex digits.\<close>

definition int16 :: "string \<Rightarrow> int" where
  "int16 h = foldl (\<lambda>acc c. 16 * acc + hex_val c) 0 h"

definition hex_to_rgb :: "string \<Rightarrow> error + (int \<times> int \<times> int)" where
  "hex_to_rgb hex_color =
     (let h = lstrip_hash (strip hex_color);
          h = (if length h = 3 then concat (map (\<lambda>c. [c, c]) h) else h)
      in if length h \<noteq> 6 \<or> \<not> list_all is_hex_digit h
         then Inl (HTTPException 400 (''Invalid color: '' @ hex_color))
         else Inr (int16 (take 2 h), int16 (take 2 (drop 2 h)), int16 (take 2 (drop 4 h))))"

text \<open>
  The inputs \<^verbatim>\<open>hex_to_rgb\<close> accepts, read off its test: after \<^verbatim>\<open>strip()\<close> and
  \<^verbatim>\<open>lstrip("#")\<close>, three or six characters, all hex digits. \<open>strip_one_hash\<close> is the
  reading "after stripping a leading \<^verbatim>\<open>#\<close>" taken literally: at most one \<^verbatim>\<open>#\<close>, and
  nothing else, is removed; \<open>hex_3_or_6\<close> is "exactly 3 or 6 hex digits".
\<close>

definition hex_3_or_6 :: "string \<Rightarrow> bool" where
  "hex_3_or_6 h \<longleftrightarrow> (length h = 3 \<or> length h = 6) \<and> list_all is_hex_digit h"

definition accepted_hex :: "string \<Rightarrow> bool" where
  "accepted_hex s \<longleftrightarrow> hex_3_or_6 (lstrip_hash (strip s))"

definition strip_one_hash :: "string \<Rightarrow> string" where
  "strip_one_hash s = (case s of [] \<Rightarrow> [] | c # r \<Rightarrow> if c = CHR ''#'' then r else s)"

definition hex_to_rgb_int :: "string \<Rightarrow> error + int" where
  "hex_to_rgb_int hex_color =
     (let h = lstrip_hash (strip hex_color);
          h = (if length h = 3 then concat (map (\<lambda>c. [c, c]) h) else h)
      in if length h \<noteq> 6 \<or> \<not> list_all is_hex_digit h
         then Inl (HTTPException 400 (''Invalid color: '' @ hex_color))
         else Inr (int16 h))"

section \<open>Raster renderer: \<^verbatim>\<open>extract_thread_colors\<close>, \<^verbatim>\<open>render_preview_png\<close>\<close>

text \<open>
  \<open>format_06x\<close> is the format specification \<^verbatim>\<open>06x\<close> on a non-negative integer: lower-case
  hexadecimal digits (\<open>hex_digits\<close>), padded with zeros on the left to at least six
  characters (\<open>zero_padded_hex 6\<close>). A thread colour is
  an integer here, which \<^verbatim>\<open>int(...)\<close> accepts, so the \<^verbatim>\<open>except\<close> branch of
  \<^verbatim>\<open>extract_thread_colors\<close> is not entered. Python's \<^verbatim>\<open>c & 0xFFFFFF\<close> on an unbounded
  integer is \<open>c mod 2 ^ 24\<close>.
\<close>

definition hex_char :: "nat \<Rightarrow> char" where
  "hex_char d = ''0123456789abcdef'' ! d"

fun hex_digits :: "nat \<Rightarrow> string" where
  "hex_digits n = (if n < 16 then [hex_char n] else hex_digits (n div 16) @ [hex_char (n mod 16)])"

declare hex_digits.simps [simp del]

definition zero_padded_hex :: "nat \<Rightarrow> nat \<Rightarrow> string" where
  "zero_padded_hex k n = replicate (k - length (hex_digits n)) CHR ''0'' @ hex_digits n"

definition format_06x :: "int \<Rightarrow> string" where
  "format_06x c = zero_padded_hex 6 (nat c)"

definition extract_thread_colors :: "pattern \<Rightarrow> string list" where
  "extract_thread_colors p =
     take MAX_BLOCKS (map (\<lambda>t. ''#'' @ format_06x (color t mod 16777216)) (threadlist p))"

text \<open>The red, green and blue components of a thread's colour, masked to 24 bits.\<close>

definition native_rgb :: "thread \<Rightarrow> int \<times> int \<times> int" where
  "native_rgb t = (let c = color t mod 16777216 in (c div 65536, c div 256 mod 256, c mod 256))"

text \<open>
  The image is modelled by what is drawn on it: the fill colour and the drawing calls in
  order. \<open>block_color\<close> is the \<^verbatim>\<open>if\<close>/\<^verbatim>\<open>elif\<close>/\<^verbatim>\<open>else\<close> that resolves \<^verbatim>\<open>col\<close> for block
  \<open>i\<close>; \<open>draw_blocks\<close> is the \<^verbatim>\<open>for i, block in enumerate(blocks)\<close> loop, started at index 0.
  The pattern argument is the result of \<^verbatim>\<open>read(design_path)\<close>; PNG encoding is not modelled.
\<close>

type_synonym rgb = "int \<times> int \<times> int"

datatype draw_op =
  Line segment rgb nat
| Rectangle "real \<times> real \<times> real \<times> real" rgb
| Text "real \<times> real" string rgb

record image =
  img_size :: "real \<times> real"
  img_fill :: rgb
  img_ops :: "draw_op list"

definition block_color :: "nat \<Rightarrow> string list \<Rightarrow> string list \<Rightarrow> error + rgb" where
  "block_color i colors_hex fallback =
     (if i < length colors_hex then hex_to_rgb (colors_hex ! i)
      else if i < length fallback then hex_to_rgb (fallback ! i)
      else Inr (0, 0, 0))"

fun draw_blocks :: "nat \<Rightarrow> block list \<Rightarrow> string list \<Rightarrow> string list \<Rightarrow> error + draw_op list" where
  "draw_blocks i [] colors_hex fallback = Inr []"
| "draw_blocks i (b # bs) colors_hex fallback =
     (case block_color i colors_hex fallback of
        Inl e \<Rightarrow> Inl e
      | Inr col \<Rightarrow>
          (case draw_blocks (Suc i) bs colors_hex fallback of
             Inl e \<Rightarrow> Inl e
           | Inr rest \<Rightarrow> Inr (map (\<lambda>s. Line s col 2) b @ rest)))"

definition render_preview_png :: "real \<Rightarrow> pattern \<Rightarrow> string \<Rightarrow> string list \<Rightarrow> error + image" where
  "render_preview_png thr p bg_hex colors_hex =
     (let bs = take MAX_BLOCKS (pattern_to_blocks_clean thr p);
          (bs, canvas) = normalize_blocks bs 40 900;
          fallback = extract_thread_colors p
      in case hex_to_rgb bg_hex of
           Inl e \<Rightarrow> Inl e
         | Inr bg \<Rightarrow>
             (case draw_blocks 0 bs colors_hex fallback of
                Inl e \<Rightarrow> Inl e
              | Inr lines \<Rightarrow>
                  Inr \<lparr>img_size = (canvas, canvas), img_fill = bg,
                       img_ops = lines @
                         [Rectangle (0, canvas - 26, canvas, canvas) (0, 0, 0),
                          Text (10, canvas - 20) ''jnbvisualizer proof (preview only)''
                            (255, 255, 255)]\<rparr>))"

section \<open>Recolor writer: \<^verbatim>\<open>generate_recolored_pes\<close>\<close>

text \<open>
  The pattern argument is the result of \<^verbatim>\<open>read(master_path)\<close>. The files written by
  \<^verbatim>\<open>write\<close> are a map from path to the pattern written there. \<open>out_path\<close> is the path the
  function builds from \<^verbatim>\<open>design_file\<close>, \<^verbatim>\<open>client_tag\<close> and \<^verbatim>\<open>proof_id\<close>; the string
  formatting is not modelled. The function returns its result, the in-memory pattern as it
  has been mutated, and the files. \<open>recolor_loop\<close> is the \<^verbatim>\<open>for i in range(n)\<close> loop over the
  indices still to do: an invalid colour raises and leaves the entries already assigned.
\<close>

type_synonym files = "string \<rightharpoonup> pattern"

fun recolor_loop :: "nat list \<Rightarrow> string list \<Rightarrow> thread list \<Rightarrow> error option \<times> thread list" where
  "recolor_loop [] colors_hex ts = (None, ts)"
| "recolor_loop (i # is) colors_hex ts =
     (case hex_to_rgb_int (colors_hex ! i) of
        Inl e \<Rightarrow> (Some e, ts)
      | Inr v \<Rightarrow> recolor_loop is colors_hex (ts[i := (ts ! i)\<lparr>color := v\<rparr>]))"

definition generate_recolored_pes ::
  "files \<Rightarrow> pattern \<Rightarrow> string list \<Rightarrow> string \<Rightarrow> (error + string) \<times> pattern \<times> files" where
  "generate_recolored_pes fs p colors_hex out_path =
     (if threadlist p = []
      then (Inl (HTTPException 500 ''Master PES has no thread list.''), p, fs)
      else
        let n = min (length (threadlist p)) (length colors_hex)
        in case recolor_loop [0..<n] colors_hex (threadlist p) of
             (Some e, ts) \<Rightarrow> (Inl e, p\<lparr>threadlist := ts\<rparr>, fs)
           | (None, ts) \<Rightarrow>
               (let p' = p\<lparr>threadlist := ts\<rparr>
                in (Inr out_path, p', fs(out_path \<mapsto> p'))))"

section \<open>Properties of the geometry extractor\<close>

lemma sqrt_le_iff_sq: "0 \<le> t \<Longrightarrow> sqrt a \<le> t \<longleftrightarrow> a \<le> t * t"
proof -
  assume t: "0 \<le> t"
  have "sqrt a \<le> t \<longleftrightarrow> sqrt a \<le> sqrt (t * t)" using t by simp
  also have "\<dots> \<longleftrightarrow> a \<le> t * t" by (rule real_sqrt_le_iff)
  finally show ?thesis .
qed

lemma sqrt_gt_iff_sq: "0 \<le> t \<Longrightarrow> sqrt a > t \<longleftrightarrow> a > t * t"
  using sqrt_le_iff_sq [of t a] by auto

lemma stitch_point_triple: "stitch_point (x, y, c) = (x, y)"
  by (simp add: stitch_point_def)

lemma stitch_cmd_triple: "stitch_cmd (x, y, c) = c"
  by (simp add: stitch_cmd_def)

text \<open>
  C1. One iteration on a STITCH record \<open>(x, y, 0)\<close> when the last point is defined: the
  segment from the last point to \<open>(x, y)\<close> is appended to the current block when the distance
  is at most the threshold, nothing is appended when the distance is greater, and in both
  cases the last point becomes \<open>(x, y)\<close> and the finished blocks are untouched.
\<close>

theorem stitch_step_draws_iff:
  assumes "last_point s = Some (x0, y0)"
  shows "(distance (x0, y0) (x, y) \<le> thr \<longrightarrow>
            current (stitch_step thr s (x, y, 0)) = current s @ [(x0, y0, x, y)])
       \<and> (distance (x0, y0) (x, y) > thr \<longrightarrow>
            current (stitch_step thr s (x, y, 0)) = current s)
       \<and> last_point (stitch_step thr s (x, y, 0)) = Some (x, y)
       \<and> blocks (stitch_step thr s (x, y, 0)) = blocks s"
  using assms by (simp add: stitch_step_def distance_def Let_def)

text \<open>
  At the default threshold, the move from \<open>(0, 0)\<close> to \<open>(27, 36)\<close> has distance exactly 45
  and is drawn; the move to \<open>(27, 37)\<close> is longer and is not.
\<close>

theorem stitch_step_draws_iff_witness:
  "last_point (ext_init\<lparr>last_point := Some (0, 0)\<rparr>) = Some (0, 0)
   \<and> distance (0, 0) (27, 36) = JUMP_DISTANCE_THRESHOLD_default
   \<and> current (stitch_step JUMP_DISTANCE_THRESHOLD_default
        (ext_init\<lparr>last_point := Some (0, 0)\<rparr>) (27, 36, 0)) = [(0, 0, 27, 36)]
   \<and> current (stitch_step JUMP_DISTANCE_THRESHOLD_default
        (ext_init\<lparr>last_point := Some (0, 0)\<rparr>) (27, 37, 0)) = []"
proof -
  have d: "distance (0, 0) (27, 36) = 45"
    by (simp add: distance_def real_sqrt_unique)
  have e: "distance (0, 0) (27, 37) > 45"
    by (simp add: distance_def sqrt_gt_iff_sq)
  have l: "last_point (ext_init\<lparr>last_point := Some (0, 0)\<rparr>) = Some (0, 0)" by simp
  have a: "current (stitch_step 45 (ext_init\<lparr>last_point := Some (0, 0)\<rparr>) (27, 36, 0))
             = [(0, 0, 27, 36)]"
    using stitch_step_draws_iff [OF l, of 27 36 45] d by (simp add: ext_init_def)
  have b: "current (stitch_step 45 (ext_init\<lparr>last_point := Some (0, 0)\<rparr>) (27, 37, 0)) = []"
    using stitch_step_draws_iff [OF l, of 27 37 45] e by (simp add: ext_init_def)
  show ?thesis
    unfolding JUMP_DISTANCE_THRESHOLD_default_def using l d a b by blast
qed

lemma stitch_step_blocks_nonempty:
  "[] \<notin> set (blocks s) \<Longrightarrow> [] \<notin> set (blocks (stitch_step thr s st))"
  by (cases st) (auto simp: stitch_step_def Let_def split: option.splits)

lemma foldl_blocks_nonempty:
  "[] \<notin> set (blocks s) \<Longrightarrow> [] \<notin> set (blocks (foldl (stitch_step thr) s sts))"
  by (induction sts arbitrary: s) (simp_all add: stitch_step_blocks_nonempty)

text \<open>
  C10. The empty block never occurs in the output of the extractor: a running block is
  appended only when it holds a segment.
\<close>

theorem blocks_nonempty: "[] \<notin> set (pattern_to_blocks_clean thr p)"
  using foldl_blocks_nonempty [of ext_init thr "stitches p"]
  by (simp add: pattern_to_blocks_clean_def ext_finish_def ext_init_def)

lemma stitch_step_close:
  assumes "last_point s = Some a" "distance a (x, y) \<le> thr"
  shows "stitch_step thr s (x, y, 0) =
           s\<lparr>current := current s @ path_segments [a, (x, y)], last_point := Some (x, y)\<rparr>"
  using assms by (cases a) (simp add: stitch_step_def distance_def Let_def)

lemma path_segments_snoc:
  "path_segments (a # b # r) = path_segments [a, b] @ path_segments (b # r)"
  by (cases a; cases b) simp

lemma foldl_close_run:
  assumes "last_point s = Some a" "\<forall>st \<in> set sts. stitch_cmd st = 0"
    "consecutive_within thr (a # map stitch_point sts)"
  shows "foldl (stitch_step thr) s sts =
           s\<lparr>current := current s @ path_segments (a # map stitch_point sts),
             last_point := Some (last (a # map stitch_point sts))\<rparr>"
  using assms
proof (induction sts arbitrary: s a)
  case Nil
  then show ?case by (cases a) simp
next
  case (Cons st sts)
  obtain x y c where st: "st = (x, y, c)" by (cases st)
  with Cons.prems have c: "c = 0" by (simp add: stitch_cmd_triple)
  from Cons.prems st have d: "distance a (x, y) \<le> thr"
    and r: "consecutive_within thr ((x, y) # map stitch_point sts)"
    by (simp_all add: stitch_point_triple)
  define s' where "s' = stitch_step thr s st"
  have s1: "s' = s\<lparr>current := current s @ path_segments [a, (x, y)], last_point := Some (x, y)\<rparr>"
    unfolding s'_def st c by (rule stitch_step_close [OF Cons.prems(1) d])
  have l: "last_point s' = Some (x, y)" by (simp add: s1)
  have all: "\<forall>st \<in> set sts. stitch_cmd st = 0" using Cons.prems by simp
  have "foldl (stitch_step thr) s (st # sts) = foldl (stitch_step thr) s' sts"
    by (simp add: s'_def)
  also have "\<dots> = s'\<lparr>current := current s' @ path_segments ((x, y) # map stitch_point sts),
          last_point := Some (last ((x, y) # map stitch_point sts))\<rparr>"
    by (rule Cons.IH [OF l all r])
  also have "\<dots> = s\<lparr>current := current s @ path_segments (a # map stitch_point (st # sts)),
             last_point := Some (last (a # map stitch_point (st # sts)))\<rparr>"
    using path_segments_snoc [of a "(x, y)" "map stitch_point sts"]
    by (simp add: s1 st stitch_point_triple)
  finally show ?case .
qed

lemma length_path_segments: "length (path_segments pts) = length pts - 1"
  by (induction pts rule: path_segments.induct) simp_all

lemma path_segments_nonempty: "2 \<le> length pts \<Longrightarrow> path_segments pts \<noteq> []"
  using length_path_segments [of pts] by (cases "path_segments pts") simp_all

text \<open>
  C5, amended. For a stitch list of at least two records, all of them STITCH and each
  consecutive pair within the threshold, the extractor returns exactly one block, the
  segments joining consecutive stitches, so the segment count is the number of stitches
  minus 1.
\<close>

theorem only_close_stitches_one_block:
  assumes "\<forall>st \<in> set (stitches p). stitch_cmd st = 0"
    and "consecutive_within thr (map stitch_point (stitches p))"
    and "2 \<le> length (stitches p)"
  shows "pattern_to_blocks_clean thr p = [path_segments (map stitch_point (stitches p))]
       \<and> length (pattern_to_blocks_clean thr p) = 1
       \<and> length (concat (pattern_to_blocks_clean thr p)) = length (stitches p) - 1"
proof -
  obtain st sts where ss: "stitches p = st # sts" using assms(3) by (cases "stitches p") auto
  obtain x y c where st: "st = (x, y, c)" by (cases st)
  have c: "c = 0" using assms(1) ss st by (simp add: stitch_cmd_triple)
  define s' where "s' = stitch_step thr ext_init st"
  have s1: "s' = ext_init\<lparr>last_point := Some (x, y)\<rparr>"
    by (simp add: s'_def stitch_step_def st c ext_init_def)
  have l: "last_point s' = Some (x, y)" by (simp add: s1)
  have all: "\<forall>st \<in> set sts. stitch_cmd st = 0" using assms(1) ss by simp
  have r: "consecutive_within thr ((x, y) # map stitch_point sts)"
    using assms(2) ss st by (simp add: stitch_point_triple)
  have pts: "map stitch_point (stitches p) = (x, y) # map stitch_point sts"
    by (simp add: ss st stitch_point_triple)
  have ne: "path_segments (map stitch_point (stitches p)) \<noteq> []"
    using assms(3) by (intro path_segments_nonempty) simp
  have "foldl (stitch_step thr) ext_init (stitches p) = foldl (stitch_step thr) s' sts"
    by (simp add: ss s'_def)
  also have "\<dots> = s'\<lparr>current := current s' @ path_segments ((x, y) # map stitch_point sts),
          last_point := Some (last ((x, y) # map stitch_point sts))\<rparr>"
    by (rule foldl_close_run [OF l all r])
  also have "\<dots> = \<lparr>blocks = [], current = path_segments (map stitch_point (stitches p)),
          last_point = Some (last (map stitch_point (stitches p)))\<rparr>"
    by (simp add: s1 ext_init_def pts)
  finally have res: "pattern_to_blocks_clean thr p = [path_segments (map stitch_point (stitches p))]"
    using ne by (simp add: pattern_to_blocks_clean_def ext_finish_def)
  show ?thesis
    by (simp add: res length_path_segments)
qed

text \<open>Three stitches along a line, each move of length 5: one block of two segments.\<close>

theorem only_close_stitches_one_block_witness:
  "list_all (\<lambda>st. stitch_cmd st = 0) [(0, 0, 0), (3, 4, 0), (6, 8, 0)]
   \<and> consecutive_within 45 (map stitch_point [(0, 0, 0), (3, 4, 0), (6, 8, 0)])
   \<and> (2::nat) \<le> length [(0, 0, 0), (3, 4, 0), (6, 8, 0 :: int) :: stitch]
   \<and> pattern_to_blocks_clean 45 \<lparr>stitches = [(0, 0, 0), (3, 4, 0), (6, 8, 0)], threadlist = []\<rparr>
       = [[(0, 0, 3, 4), (3, 4, 6, 8)]]"
proof -
  let ?p = "\<lparr>stitches = [(0, 0, 0), (3, 4, 0), (6, 8, 0)], threadlist = []\<rparr>"
  have a: "\<forall>st \<in> set (stitches ?p). stitch_cmd st = 0"
    by (simp add: stitch_cmd_triple)
  have b: "consecutive_within 45 (map stitch_point (stitches ?p))"
    by (simp add: stitch_point_triple distance_def sqrt_le_iff_sq)
  have c: "2 \<le> length (stitches ?p)" by simp
  show ?thesis
    using only_close_stitches_one_block [OF a b c] a b
    by (simp add: stitch_point_triple stitch_cmd_triple)
qed

text \<open>A single STITCH record draws nothing: the extractor returns no block at all.\<close>

theorem only_close_stitches_counterexample:
  "list_all (\<lambda>st. stitch_cmd st = 0) [(0, 0, 0)]
   \<and> consecutive_within 45 (map stitch_point [(0, 0, 0)])
   \<and> length (pattern_to_blocks_clean 45 \<lparr>stitches = [(0, 0, 0)], threadlist = []\<rparr>) \<noteq> 1"
  by (simp add: pattern_to_blocks_clean_def stitch_step_def ext_init_def ext_finish_def
      stitch_cmd_triple stitch_point_triple)

lemma split_runs_nonempty: "split_runs sts \<noteq> []"
  by (induction sts) (auto split: list.splits)

lemma length_split_runs: "length (split_runs sts) = color_changes sts + 1"
proof (induction sts)
  case Nil
  show ?case by (simp add: color_changes_def)
next
  case (Cons st sts)
  obtain x y c where st: "st = (x, y, c)" by (cases st)
  obtain r rs where rs: "split_runs sts = r # rs"
    using split_runs_nonempty [of sts] by (cases "split_runs sts") auto
  show ?case using Cons.IH
    by (simp add: st rs stitch_cmd_triple color_changes_def)
qed

lemma split_runs_no_change: "run \<in> set (split_runs sts) \<Longrightarrow> st \<in> set run \<Longrightarrow> stitch_cmd st \<noteq> 5"
proof (induction sts arbitrary: run)
  case Nil
  then show ?case by simp
next
  case (Cons a sts)
  obtain r rs where rs: "split_runs sts = r # rs"
    using split_runs_nonempty [of sts] by (cases "split_runs sts") auto
  show ?case
  proof (cases "stitch_cmd a = 5")
    case True
    with Cons.prems have "run = [] \<or> run \<in> set (split_runs sts)" by simp
    with Cons show ?thesis by auto
  next
    case False
    with Cons.prems rs have "run = a # r \<or> run \<in> set rs" by simp
    then show ?thesis
    proof
      assume "run = a # r"
      with Cons.prems(2) have "st = a \<or> st \<in> set r" by simp
      then show ?thesis using False Cons.IH [of r] rs by auto
    next
      assume "run \<in> set rs"
      then show ?thesis using Cons.IH [of run] Cons.prems(2) rs by simp
    qed
  qed
qed

lemma stitch_step_blocks_update:
  "stitch_cmd st \<noteq> 5 \<Longrightarrow> stitch_step thr (s\<lparr>blocks := b\<rparr>) st = (stitch_step thr s st)\<lparr>blocks := b\<rparr>"
  by (cases st) (auto simp: stitch_step_def stitch_cmd_def Let_def split: option.splits)

lemma foldl_blocks_update:
  "\<forall>st \<in> set run. stitch_cmd st \<noteq> 5 \<Longrightarrow>
   foldl (stitch_step thr) (s\<lparr>blocks := b\<rparr>) run = (foldl (stitch_step thr) s run)\<lparr>blocks := b\<rparr>"
  by (induction run arbitrary: s) (simp_all add: stitch_step_blocks_update)

lemma stitch_step_blocks_same:
  "stitch_cmd st \<noteq> 5 \<Longrightarrow> blocks (stitch_step thr s st) = blocks s"
  by (cases st) (auto simp: stitch_step_def stitch_cmd_def Let_def split: option.splits)

lemma extractor_runs_from:
  assumes "split_runs sts = r # rs"
  shows "ext_finish (foldl (stitch_step thr) s sts) =
     blocks s @ filter (\<lambda>b. b \<noteq> [])
       (current (foldl (stitch_step thr) s r) # map (run_segments thr) rs)"
  using assms
proof (induction sts arbitrary: s r rs)
  case Nil
  then show ?case by (simp add: ext_finish_def)
next
  case (Cons st sts)
  obtain r' rs' where rs': "split_runs sts = r' # rs'"
    using split_runs_nonempty [of sts] by (cases "split_runs sts") auto
  define s' where "s' = stitch_step thr s st"
  have IH: "ext_finish (foldl (stitch_step thr) s' sts) =
     blocks s' @ filter (\<lambda>b. b \<noteq> [])
       (current (foldl (stitch_step thr) s' r') # map (run_segments thr) rs')"
    by (rule Cons.IH [OF rs'])
  have f: "foldl (stitch_step thr) s (st # sts) = foldl (stitch_step thr) s' sts"
    by (simp add: s'_def)
  show ?case
  proof (cases "stitch_cmd st = 5")
    case True
    obtain x y where st: "st = (x, y, 5)" using True by (cases st) (simp add: stitch_cmd_def)
    have r: "r = []" "rs = r' # rs'" using Cons.prems True rs' by simp_all
    have no: "\<forall>a \<in> set r'. stitch_cmd a \<noteq> 5"
      using split_runs_no_change [of r' sts] rs' by simp
    have s'_eq: "s' = ext_init\<lparr>blocks := blocks s @ (if current s \<noteq> [] then [current s] else [])\<rparr>"
      by (simp add: s'_def st stitch_step_def ext_init_def)
    have "current (foldl (stitch_step thr) s' r') = run_segments thr r'"
      unfolding s'_eq foldl_blocks_update [OF no] by (simp add: run_segments_def)
    moreover have "blocks s' = blocks s @ (if current s \<noteq> [] then [current s] else [])"
      by (simp add: s'_eq)
    ultimately show ?thesis
      unfolding f IH by (simp add: r)
  next
    case False
    have r: "r = st # r'" "rs = rs'" using Cons.prems False rs' by simp_all
    have "blocks s' = blocks s" unfolding s'_def by (rule stitch_step_blocks_same [OF False])
    then show ?thesis
      unfolding f IH by (simp add: r s'_def)
  qed
qed

lemma run_draws_current:
  assumes "\<forall>st \<in> set run. stitch_cmd st \<noteq> 5"
  shows "current (foldl (stitch_step thr) s run) \<noteq> [] \<longleftrightarrow>
           current s \<noteq> [] \<or> run_draws thr (last_point s) run"
  using assms
proof (induction run arbitrary: s)
  case Nil
  show ?case by simp
next
  case (Cons st run)
  obtain x y c where st: "st = (x, y, c)" by (cases st)
  have c5: "c \<noteq> 5" using Cons.prems st by (simp add: stitch_cmd_triple)
  have IH: "current (foldl (stitch_step thr) (stitch_step thr s st) run) \<noteq> [] \<longleftrightarrow>
      current (stitch_step thr s st) \<noteq> [] \<or> run_draws thr (last_point (stitch_step thr s st)) run"
    using Cons.prems by (intro Cons.IH) simp
  show ?case
  proof (cases "c = 0")
    case False
    then have "stitch_step thr s st = s\<lparr>last_point := None\<rparr>"
      using c5 by (simp add: st stitch_step_def)
    then show ?thesis using IH False by (simp add: st stitch_cmd_triple)
  next
    case True
    show ?thesis
    proof (cases "last_point s")
      case None
      then have "stitch_step thr s st = s\<lparr>last_point := Some (x, y)\<rparr>"
        using True by (simp add: st stitch_step_def)
      then show ?thesis
        using IH True None by (simp add: st stitch_cmd_triple stitch_point_triple)
    next
      case (Some a)
      obtain x0 y0 where a: "a = (x0, y0)" by (cases a)
      show ?thesis
      proof (cases "distance a (x, y) \<le> thr")
        case close: True
        then have "stitch_step thr s st =
            s\<lparr>current := current s @ [(x0, y0, x, y)], last_point := Some (x, y)\<rparr>"
          using True Some a by (simp add: st stitch_step_def distance_def Let_def)
        then show ?thesis
          using IH True Some close by (simp add: st stitch_cmd_triple stitch_point_triple)
      next
        case far: False
        then have "stitch_step thr s st = s\<lparr>last_point := Some (x, y)\<rparr>"
          using True Some a by (simp add: st stitch_step_def distance_def Let_def)
        then show ?thesis
          using IH True Some far by (simp add: st stitch_cmd_triple stitch_point_triple)
      qed
    qed
  qed
qed

lemma run_segments_draws:
  "\<forall>st \<in> set run. stitch_cmd st \<noteq> 5 \<Longrightarrow> run_segments thr run \<noteq> [] \<longleftrightarrow> run_draws thr None run"
  using run_draws_current [of run thr ext_init] by (simp add: run_segments_def ext_init_def)

lemma drawn_runs_segments:
  "drawn_runs thr sts = filter (\<lambda>run. run_segments thr run \<noteq> []) (split_runs sts)"
proof -
  have "run_draws thr None run \<longleftrightarrow> run_segments thr run \<noteq> []"
    if "run \<in> set (split_runs sts)" for run
  proof -
    have "\<forall>st \<in> set run. stitch_cmd st \<noteq> 5"
      using split_runs_no_change [OF that] by blast
    then show ?thesis by (simp add: run_segments_draws)
  qed
  then show ?thesis
    unfolding drawn_runs_def by (intro filter_cong) simp_all
qed

lemma extractor_runs:
  "pattern_to_blocks_clean thr p = map (run_segments thr) (drawn_runs thr (stitches p))"
proof -
  obtain r rs where rs: "split_runs (stitches p) = r # rs"
    using split_runs_nonempty [of "stitches p"] by (cases "split_runs (stitches p)") auto
  have "pattern_to_blocks_clean thr p =
      filter (\<lambda>b. b \<noteq> []) (map (run_segments thr) (split_runs (stitches p)))"
    unfolding pattern_to_blocks_clean_def extractor_runs_from [OF rs] rs
    by (simp add: run_segments_def ext_init_def)
  then show ?thesis by (simp add: drawn_runs_segments filter_map comp_def)
qed

text \<open>
  C3, amended. The block count reported by \<^verbatim>\<open>get_block_count\<close>, which is also the number
  of blocks the renderer keeps, is the number of colour runs that draw, capped at 20: the
  runs in which some STITCH record directly follows another within the threshold. There
  are colour-change count + 1 runs, so the count equals \<open>min (colour-change count + 1) 20\<close>
  whenever every run draws, and is never more.
\<close>

theorem block_count_capped:
  "get_block_count thr p = min (length (drawn_runs thr (stitches p))) 20
   \<and> length (take MAX_BLOCKS (pattern_to_blocks_clean thr p)) = get_block_count thr p
   \<and> length (split_runs (stitches p)) = color_changes (stitches p) + 1
   \<and> ((\<forall>run \<in> set (split_runs (stitches p)). run_draws thr None run) \<longrightarrow>
        get_block_count thr p = min (color_changes (stitches p) + 1) 20)
   \<and> get_block_count thr p \<le> min (color_changes (stitches p) + 1) 20"
proof -
  have c: "get_block_count thr p = min (length (drawn_runs thr (stitches p))) 20"
    by (simp add: get_block_count_def extractor_runs MAX_BLOCKS_def)
  have l: "length (drawn_runs thr (stitches p)) \<le> color_changes (stitches p) + 1"
    unfolding drawn_runs_def length_split_runs [symmetric] by (rule length_filter_le)
  have a: "length (drawn_runs thr (stitches p)) = color_changes (stitches p) + 1"
    if "\<forall>run \<in> set (split_runs (stitches p)). run_draws thr None run"
    using that by (simp add: drawn_runs_def length_split_runs)
  show ?thesis
    using c l a length_split_runs [of "stitches p"]
    by (auto simp: get_block_count_def MAX_BLOCKS_def)
qed


text \<open>
  A design with 25 colour changes, every run drawn, reports 20 blocks; one with 2 colour
  changes reports 3.
\<close>

lemma split_runs_striped:
  "split_runs (striped_design n) = replicate (Suc n) [(0, 0, 0), (1, 0, 0)]"
  by (induction n) (simp_all add: striped_design_def stitch_cmd_triple)

lemma color_changes_striped: "color_changes (striped_design n) = n"
  by (induction n) (simp_all add: striped_design_def color_changes_def)

theorem block_count_capped_witness:
  "color_changes (striped_design 25) = 25
   \<and> list_all (run_draws 45 None) (split_runs (striped_design 25))
   \<and> get_block_count 45 \<lparr>stitches = striped_design 25, threadlist = []\<rparr> = 20
   \<and> color_changes (striped_design 2) = 2
   \<and> get_block_count 45 \<lparr>stitches = striped_design 2, threadlist = []\<rparr> = 3"
proof -
  have all: "\<forall>run \<in> set (split_runs (stitches \<lparr>stitches = striped_design n, threadlist = []\<rparr>)).
      run_draws 45 None run" for n
    by (simp add: split_runs_striped stitch_cmd_triple stitch_point_triple distance_def)
  have a: "get_block_count 45 \<lparr>stitches = striped_design 25, threadlist = []\<rparr> = 20"
    using block_count_capped [of 45 "\<lparr>stitches = striped_design 25, threadlist = []\<rparr>"] all [of 25]
    by (simp add: color_changes_striped)
  have b: "get_block_count 45 \<lparr>stitches = striped_design 2, threadlist = []\<rparr> = 3"
    using block_count_capped [of 45 "\<lparr>stitches = striped_design 2, threadlist = []\<rparr>"] all [of 2]
    by (simp add: color_changes_striped)
  have c: "list_all (run_draws 45 None) (split_runs (striped_design 25))"
    using all [of 25] by (simp add: list_all_iff)
  show ?thesis using a b c by (simp add: color_changes_striped)
qed

text \<open>
  Two drawn stitches, two COLOR_CHANGE records in a row, two drawn stitches: two colour
  changes and two blocks, not three.
\<close>

theorem block_count_counterexample:
  "get_block_count 45
     \<lparr>stitches = [(0, 0, 0), (1, 0, 0), (1, 0, 5), (1, 0, 5), (2, 0, 0), (3, 0, 0)],
      threadlist = []\<rparr>
   \<noteq> min (color_changes [(0, 0, 0), (1, 0, 0), (1, 0, 5), (1, 0, 5), (2, 0, 0), (3, 0, 0)] + 1) 20"
  by (simp add: get_block_count_def pattern_to_blocks_clean_def stitch_step_def ext_init_def
      ext_finish_def color_changes_def MAX_BLOCKS_def)

section \<open>Properties of the canvas normalizer\<close>

lemma endpoints_Nil: "endpoints [] = []"
  by (simp add: endpoints_def)

lemma endpoints_Cons: "endpoints (b # bs) = block_points b @ endpoints bs"
  by (simp add: endpoints_def)

lemma block_points_map:
  "block_points (map (\<lambda>(x1, y1, x2, y2). (fx x1, fy y1, fx x2, fy y2)) b)
   = map (\<lambda>(x, y). (fx x, fy y)) (block_points b)"
  by (induction b) (auto simp: block_points_def)

lemma endpoints_map:
  "endpoints (map (map (\<lambda>(x1, y1, x2, y2). (fx x1, fy y1, fx x2, fy y2))) bs)
   = map (\<lambda>(x, y). (fx x, fy y)) (endpoints bs)"
  by (induction bs) (simp_all add: endpoints_Nil endpoints_Cons block_points_map)

lemma normalize_blocks_nonempty:
  assumes "endpoints bs \<noteq> []"
  shows "normalize_blocks bs p c =
    (map (map (\<lambda>(x1, y1, x2, y2).
        ((x1 - Min (set (map fst (endpoints bs)))) * norm_scale (endpoints bs) p c + p,
         (y1 - Min (set (map snd (endpoints bs)))) * norm_scale (endpoints bs) p c + p,
         (x2 - Min (set (map fst (endpoints bs)))) * norm_scale (endpoints bs) p c + p,
         (y2 - Min (set (map snd (endpoints bs)))) * norm_scale (endpoints bs) p c + p))) bs, c)"
  using assms by (simp add: normalize_blocks_def Let_def)

lemma endpoints_normalize:
  assumes "endpoints bs \<noteq> []"
  shows "endpoints (fst (normalize_blocks bs p c)) =
    map (\<lambda>(x, y). ((x - Min (set (map fst (endpoints bs)))) * norm_scale (endpoints bs) p c + p,
                    (y - Min (set (map snd (endpoints bs)))) * norm_scale (endpoints bs) p c + p))
      (endpoints bs)"
  unfolding normalize_blocks_nonempty [OF assms] fst_conv
  by (rule endpoints_map)

lemma extent_x_nonneg: "pts \<noteq> [] \<Longrightarrow> 0 \<le> extent_x pts"
  by (simp add: extent_x_def)

lemma extent_y_nonneg: "pts \<noteq> [] \<Longrightarrow> 0 \<le> extent_y pts"
  by (simp add: extent_y_def)

lemma norm_width_pos: "pts \<noteq> [] \<Longrightarrow> 0 < norm_width pts"
  using extent_x_nonneg [of pts] by (simp add: norm_width_def py_or_1_def)

lemma norm_height_pos: "pts \<noteq> [] \<Longrightarrow> 0 < norm_height pts"
  using extent_y_nonneg [of pts] by (simp add: norm_height_def py_or_1_def)

lemma norm_scale_nonneg: "pts \<noteq> [] \<Longrightarrow> 2 * p \<le> c \<Longrightarrow> 0 \<le> norm_scale pts p c"
  using norm_width_pos [of pts] by (simp add: norm_scale_def)

lemma scaled_le:
  fixes d m k :: real
  assumes "0 \<le> d" "d \<le> m" "0 < m" "0 \<le> k"
  shows "d * (k / m) \<le> k"
proof -
  have "d * (k / m) = (d / m) * k" by simp
  also have "\<dots> \<le> 1 * k"
    using assms by (intro mult_right_mono) simp_all
  finally show ?thesis by simp
qed

lemma extent_x_scaled:
  assumes "pts \<noteq> []" "2 * p \<le> c"
  shows "extent_x pts * norm_scale pts p c \<le> c - 2 * p"
proof -
  have "extent_x pts \<le> norm_width pts"
    by (simp add: norm_width_def py_or_1_def)
  then have "extent_x pts \<le> max (norm_width pts) (norm_height pts)" by simp
  moreover have "0 < max (norm_width pts) (norm_height pts)"
    using norm_width_pos [OF assms(1)] by simp
  ultimately show ?thesis
    unfolding norm_scale_def using extent_x_nonneg [OF assms(1)] assms(2)
    by (intro scaled_le) simp_all
qed

lemma extent_y_scaled:
  assumes "pts \<noteq> []" "2 * p \<le> c"
  shows "extent_y pts * norm_scale pts p c \<le> c - 2 * p"
proof -
  have "extent_y pts \<le> norm_height pts"
    by (simp add: norm_height_def py_or_1_def)
  then have "extent_y pts \<le> max (norm_width pts) (norm_height pts)" by simp
  moreover have "0 < max (norm_width pts) (norm_height pts)"
    using norm_width_pos [OF assms(1)] by simp
  ultimately show ?thesis
    unfolding norm_scale_def using extent_y_nonneg [OF assms(1)] assms(2)
    by (intro scaled_le) simp_all
qed

lemma affine_bounds:
  fixes v lo hi k p c :: real
  assumes "lo \<le> v" "v \<le> hi" "0 \<le> k" "(hi - lo) * k \<le> c - 2 * p"
  shows "p \<le> (v - lo) * k + p \<and> (v - lo) * k + p \<le> c - p"
proof -
  have "0 \<le> (v - lo) * k" using assms by simp
  moreover have "(v - lo) * k \<le> (hi - lo) * k"
    using assms by (intro mult_right_mono) simp_all
  ultimately show ?thesis using assms(4) by linarith
qed

lemma affine_Max:
  fixes X :: "real set" and k lo p :: real
  assumes "finite X" "X \<noteq> {}" "0 \<le> k"
  shows "Max ((\<lambda>v. (v - lo) * k + p) ` X) = (Max X - lo) * k + p"
proof -
  have "mono (\<lambda>v. (v - lo) * k + p)"
    using assms(3) by (intro monoI) (simp add: mult_right_mono)
  from mono_Max_commute [OF this assms(1,2)] show ?thesis by simp
qed

text \<open>
  In exact arithmetic the normalizer fits the design into the canvas without tolerance:
  for \<open>2 * p \<le> c\<close> every coordinate lies within \<open>[p, c - p]\<close>, and for a bounding box with
  both extents positive the maximum along the longer axis is \<open>c - p\<close>.
\<close>

lemma normalize_blocks_exact_in_canvas:
  "(endpoints bs = [] \<longrightarrow> normalize_blocks bs p c = (bs, c))
   \<and> (endpoints bs \<noteq> [] \<and> 2 * p \<le> c \<longrightarrow>
        (\<forall>(x, y) \<in> set (endpoints (fst (normalize_blocks bs p c))).
            p \<le> x \<and> x \<le> c - p \<and> p \<le> y \<and> y \<le> c - p)
        \<and> (0 < extent_x (endpoints bs) \<and> 0 < extent_y (endpoints bs)
             \<and> extent_y (endpoints bs) \<le> extent_x (endpoints bs) \<longrightarrow>
             Max (set (map fst (endpoints (fst (normalize_blocks bs p c))))) = c - p)
        \<and> (0 < extent_x (endpoints bs) \<and> 0 < extent_y (endpoints bs)
             \<and> extent_x (endpoints bs) \<le> extent_y (endpoints bs) \<longrightarrow>
             Max (set (map snd (endpoints (fst (normalize_blocks bs p c))))) = c - p))"
proof (intro conjI impI)
  assume "endpoints bs = []"
  then show "normalize_blocks bs p c = (bs, c)"
    by (simp add: normalize_blocks_def)
next
  assume a: "endpoints bs \<noteq> [] \<and> 2 * p \<le> c"
  define pts where "pts = endpoints bs"
  define k where "k = norm_scale pts p c"
  define minx where "minx = Min (set (map fst pts))"
  define miny where "miny = Min (set (map snd pts))"
  have ne: "pts \<noteq> []" and pc: "2 * p \<le> c" using a by (simp_all add: pts_def)
  have k0: "0 \<le> k" unfolding k_def by (rule norm_scale_nonneg [OF ne pc])
  have out: "endpoints (fst (normalize_blocks bs p c)) =
    map (\<lambda>(x, y). ((x - minx) * k + p, (y - miny) * k + p)) pts"
    unfolding pts_def k_def minx_def miny_def using a by (intro endpoints_normalize) simp
  have ex: "(Max (set (map fst pts)) - minx) * k \<le> c - 2 * p"
    using extent_x_scaled [OF ne pc] by (simp add: extent_x_def k_def minx_def)
  have ey: "(Max (set (map snd pts)) - miny) * k \<le> c - 2 * p"
    using extent_y_scaled [OF ne pc] by (simp add: extent_y_def k_def miny_def)
  show "\<forall>(x, y) \<in> set (endpoints (fst (normalize_blocks bs p c))).
            p \<le> x \<and> x \<le> c - p \<and> p \<le> y \<and> y \<le> c - p"
  proof -
    have "p \<le> (x - minx) * k + p \<and> (x - minx) * k + p \<le> c - p
        \<and> p \<le> (y - miny) * k + p \<and> (y - miny) * k + p \<le> c - p"
      if "(x, y) \<in> set pts" for x y
    proof -
      have x: "x \<in> set (map fst pts)" and y: "y \<in> set (map snd pts)"
        using that by force+
      have "minx \<le> x" "x \<le> Max (set (map fst pts))"
        using x by (simp_all add: minx_def)
      from affine_bounds [OF this k0 ex]
      have bx: "p \<le> (x - minx) * k + p \<and> (x - minx) * k + p \<le> c - p" .
      have "miny \<le> y" "y \<le> Max (set (map snd pts))"
        using y by (simp_all add: miny_def)
      from affine_bounds [OF this k0 ey]
      have "p \<le> (y - miny) * k + p \<and> (y - miny) * k + p \<le> c - p" .
      with bx show ?thesis by simp
    qed
    then show ?thesis unfolding out by auto
  qed
  have mx: "Max (set (map fst (endpoints (fst (normalize_blocks bs p c)))))
          = (Max (set (map fst pts)) - minx) * k + p"
  proof -
    have "set (map fst (endpoints (fst (normalize_blocks bs p c))))
        = (\<lambda>v. (v - minx) * k + p) ` set (map fst pts)"
      unfolding out by force
    then show ?thesis
      using affine_Max [of "set (map fst pts)" k minx p] ne k0 by simp
  qed
  have my: "Max (set (map snd (endpoints (fst (normalize_blocks bs p c)))))
          = (Max (set (map snd pts)) - miny) * k + p"
  proof -
    have "set (map snd (endpoints (fst (normalize_blocks bs p c))))
        = (\<lambda>v. (v - miny) * k + p) ` set (map snd pts)"
      unfolding out by force
    then show ?thesis
      using affine_Max [of "set (map snd pts)" k miny p] ne k0 by simp
  qed
  show "Max (set (map fst (endpoints (fst (normalize_blocks bs p c))))) = c - p"
    if "0 < extent_x (endpoints bs) \<and> 0 < extent_y (endpoints bs)
        \<and> extent_y (endpoints bs) \<le> extent_x (endpoints bs)"
  proof -
    have w: "norm_width pts = extent_x pts" and h: "norm_height pts \<le> extent_x pts"
      using that
      by (auto simp: norm_width_def norm_height_def py_or_1_def pts_def)
    have "k = (c - 2 * p) / extent_x pts"
      using w h by (simp add: k_def norm_scale_def max_def)
    then have "extent_x pts * k = c - 2 * p" using that by (simp add: pts_def)
    then show ?thesis unfolding mx by (simp add: extent_x_def minx_def)
  qed
  show "Max (set (map snd (endpoints (fst (normalize_blocks bs p c))))) = c - p"
    if "0 < extent_x (endpoints bs) \<and> 0 < extent_y (endpoints bs)
        \<and> extent_x (endpoints bs) \<le> extent_y (endpoints bs)"
  proof -
    have h: "norm_height pts = extent_y pts" and w: "norm_width pts \<le> extent_y pts"
      using that
      by (auto simp: norm_width_def norm_height_def py_or_1_def pts_def)
    have "k = (c - 2 * p) / extent_y pts"
      using w h by (simp add: k_def norm_scale_def max_def)
    then have "extent_y pts * k = c - 2 * p" using that by (simp add: pts_def)
    then show ?thesis unfolding my by (simp add: extent_y_def miny_def)
  qed
qed


subsection \<open>Binary64 rounding\<close>

lemma rne_cases: "rne m = \<lfloor>m\<rfloor> \<or> rne m = \<lfloor>m\<rfloor> + 1"
  by (simp add: rne_def Let_def)

lemma rne_error: "\<bar>of_int (rne m) - m\<bar> \<le> 1 / 2"
proof -
  define r where "r = m - of_int \<lfloor>m\<rfloor>"
  have r: "0 \<le> r" "r < 1" unfolding r_def by linarith+
  have m: "m = of_int \<lfloor>m\<rfloor> + r" by (simp add: r_def)
  consider "r < 1 / 2" | "1 / 2 < r" | "r = 1 / 2" by linarith
  then show ?thesis
  proof cases
    case 1
    then have "rne m = \<lfloor>m\<rfloor>" by (simp add: rne_def Let_def r_def)
    then have "real_of_int (rne m) = of_int \<lfloor>m\<rfloor>" by simp
    then show ?thesis using r 1 m by linarith
  next
    case 2
    then have "rne m = \<lfloor>m\<rfloor> + 1" by (simp add: rne_def Let_def r_def)
    then have "real_of_int (rne m) = of_int \<lfloor>m\<rfloor> + 1" by simp
    then show ?thesis using r 2 m by linarith
  next
    case 3
    have "real_of_int (rne m) = of_int \<lfloor>m\<rfloor> \<or> real_of_int (rne m) = of_int \<lfloor>m\<rfloor> + 1"
      using rne_cases [of m] by auto
    then show ?thesis
    proof
      assume "real_of_int (rne m) = of_int \<lfloor>m\<rfloor>"
      then show ?thesis using 3 m by linarith
    next
      assume "real_of_int (rne m) = of_int \<lfloor>m\<rfloor> + 1"
      then show ?thesis using 3 m by linarith
    qed
  qed
qed

lemma rne_of_int: "rne (of_int k) = k"
  by (simp add: rne_def)

lemma rne_mono: "a \<le> b \<Longrightarrow> rne a \<le> rne b"
proof -
  assume ab: "a \<le> b"
  have fl: "\<lfloor>a\<rfloor> \<le> \<lfloor>b\<rfloor>" using ab by (rule floor_mono)
  show ?thesis
  proof (cases "\<lfloor>a\<rfloor> = \<lfloor>b\<rfloor>")
    case True
    then have "a - of_int \<lfloor>a\<rfloor> \<le> b - of_int \<lfloor>b\<rfloor>" using ab by simp
    then show ?thesis using True by (auto simp: rne_def Let_def)
  next
    case False
    then have "\<lfloor>a\<rfloor> + 1 \<le> \<lfloor>b\<rfloor>" using fl by simp
    moreover have "rne a \<le> \<lfloor>a\<rfloor> + 1" using rne_cases [of a] by auto
    moreover have "\<lfloor>b\<rfloor> \<le> rne b" using rne_cases [of b] by auto
    ultimately show ?thesis by simp
  qed
qed

lemma binade:
  assumes "0 < y"
  shows "(2::real) powr of_int \<lfloor>log 2 y\<rfloor> \<le> y" "y < (2::real) powr (of_int \<lfloor>log 2 y\<rfloor> + 1)"
  using floor_log_eq_powr_iff [of y 2 "\<lfloor>log 2 y\<rfloor>"] assms by simp_all

lemma ulp53_pos: "0 < ulp53 y"
  by (simp add: ulp53_def)

lemma ulp53_eq: "ulp53 y = 2 powr of_int \<lfloor>log 2 y\<rfloor> / 2 ^ 52"
proof -
  have "ulp53 y = 2 powr (of_int \<lfloor>log 2 y\<rfloor> - 52)" by (simp add: ulp53_def)
  also have "\<dots> = 2 powr of_int \<lfloor>log 2 y\<rfloor> / 2 powr 52" by (rule powr_diff)
  finally show ?thesis by simp
qed

lemma scaled_range:
  assumes "0 < y"
  shows "2 ^ 52 \<le> y / ulp53 y" "y / ulp53 y < 2 ^ 53"
proof -
  define b where "b = (2::real) powr of_int \<lfloor>log 2 y\<rfloor>"
  have b: "0 < b" "b \<le> y" "y < 2 * b"
    using binade [OF assms] by (simp_all add: b_def powr_add)
  have u: "y / ulp53 y = y * 2 ^ 52 / b" by (simp add: ulp53_eq b_def)
  show "2 ^ 52 \<le> y / ulp53 y"
    unfolding u using b by (simp add: le_divide_eq)
  show "y / ulp53 y < 2 ^ 53"
    unfolding u using b by (simp add: divide_less_eq)
qed

lemma fl_pos_eq: "0 < y \<Longrightarrow> fl y = of_int (rne (y / ulp53 y)) * ulp53 y"
  by (simp add: fl_def)

lemma rne_scaled_range:
  assumes "0 < y"
  shows "2 ^ 52 \<le> rne (y / ulp53 y)" "rne (y / ulp53 y) \<le> 2 ^ 53"
proof -
  have "rne (of_int (2 ^ 52)) \<le> rne (y / ulp53 y)"
    using scaled_range(1) [OF assms] by (intro rne_mono) simp
  then show "2 ^ 52 \<le> rne (y / ulp53 y)" by (simp only: rne_of_int)
  have "rne (y / ulp53 y) \<le> rne (of_int (2 ^ 53))"
    using scaled_range(2) [OF assms] by (intro rne_mono) simp
  then show "rne (y / ulp53 y) \<le> 2 ^ 53" by (simp only: rne_of_int)
qed

lemma fl_pos_range:
  assumes "0 < y"
  shows "(2::real) powr of_int \<lfloor>log 2 y\<rfloor> \<le> fl y"
    and "fl y \<le> (2::real) powr (of_int \<lfloor>log 2 y\<rfloor> + 1)"
proof -
  define b where "b = (2::real) powr of_int \<lfloor>log 2 y\<rfloor>"
  have b: "0 < b" by (simp add: b_def)
  have u: "ulp53 y = b / 2 ^ 52" by (simp add: ulp53_eq b_def)
  have lo: "(2::real) ^ 52 \<le> of_int (rne (y / ulp53 y))"
    using rne_scaled_range(1) [OF assms] by (metis of_int_le_iff of_int_numeral of_int_power)
  have hi: "of_int (rne (y / ulp53 y)) \<le> (2::real) ^ 53"
    using rne_scaled_range(2) [OF assms] by (metis of_int_le_iff of_int_numeral of_int_power)
  have "b = 2 ^ 52 * (b / 2 ^ 52)" by simp
  also have "\<dots> \<le> of_int (rne (y / ulp53 y)) * (b / 2 ^ 52)"
    using lo b by (intro mult_right_mono) simp_all
  finally show "(2::real) powr of_int \<lfloor>log 2 y\<rfloor> \<le> fl y"
    by (simp add: fl_pos_eq [OF assms] u b_def)
  have "of_int (rne (y / ulp53 y)) * (b / 2 ^ 52) \<le> 2 ^ 53 * (b / 2 ^ 52)"
    using hi b by (intro mult_right_mono) simp_all
  also have "\<dots> = 2 * b" by simp
  finally show "fl y \<le> (2::real) powr (of_int \<lfloor>log 2 y\<rfloor> + 1)"
    by (simp add: fl_pos_eq [OF assms] u b_def powr_add)
qed

lemma fl_pos_err:
  assumes "0 < y"
  shows "\<bar>fl y - y\<bar> \<le> unit_roundoff * y"
proof -
  define q where "q = ulp53 y"
  have q: "0 < q" unfolding q_def by (rule ulp53_pos)
  have "fl y - y = (of_int (rne (y / q)) - y / q) * q"
    using q by (simp add: fl_pos_eq [OF assms] q_def [symmetric] algebra_simps)
  then have "\<bar>fl y - y\<bar> = \<bar>of_int (rne (y / q)) - y / q\<bar> * q"
    using q by (simp add: abs_mult)
  also have "\<dots> \<le> (1 / 2) * q"
    using rne_error [of "y / q"] q by (intro mult_right_mono) simp_all
  also have "\<dots> \<le> (1 / 2) * (y / 2 ^ 52)"
  proof -
    have "q \<le> y / 2 ^ 52"
      unfolding q_def ulp53_eq using binade(1) [OF assms] by (simp add: divide_right_mono)
    then show ?thesis by simp
  qed
  also have "\<dots> = unit_roundoff * y" by (simp add: unit_roundoff_def)
  finally show ?thesis .
qed

lemma fl_pos_mono:
  assumes "0 < x" "x \<le> y"
  shows "fl x \<le> fl y"
proof -
  have y: "0 < y" using assms by simp
  have e: "\<lfloor>log 2 x\<rfloor> \<le> \<lfloor>log 2 y\<rfloor>"
    using assms by (intro floor_mono) simp
  show ?thesis
  proof (cases "\<lfloor>log 2 x\<rfloor> = \<lfloor>log 2 y\<rfloor>")
    case True
    then have u: "ulp53 x = ulp53 y" by (simp add: ulp53_def)
    have "x / ulp53 y \<le> y / ulp53 y"
      using assms(2) ulp53_pos [of y] by (simp add: divide_right_mono)
    then have "rne (x / ulp53 y) \<le> rne (y / ulp53 y)" by (rule rne_mono)
    then have "real_of_int (rne (x / ulp53 y)) * ulp53 y \<le> of_int (rne (y / ulp53 y)) * ulp53 y"
      using ulp53_pos [of y] by (intro mult_right_mono) simp_all
    then show ?thesis by (simp add: fl_pos_eq [OF assms(1)] fl_pos_eq [OF y] u)
  next
    case False
    then have "\<lfloor>log 2 x\<rfloor> + 1 \<le> \<lfloor>log 2 y\<rfloor>" using e by simp
    then have "real_of_int \<lfloor>log 2 x\<rfloor> + 1 \<le> of_int \<lfloor>log 2 y\<rfloor>" by linarith
    then have "(2::real) powr (of_int \<lfloor>log 2 x\<rfloor> + 1) \<le> 2 powr of_int \<lfloor>log 2 y\<rfloor>"
      by (intro powr_mono) simp_all
    then show ?thesis
      using fl_pos_range(2) [OF assms(1)] fl_pos_range(1) [OF y] by linarith
  qed
qed

lemma fl_zero: "fl 0 = 0"
  by (simp add: fl_def)

lemma fl_minus: "fl (- x) = - fl x"
  by (simp add: fl_def)

lemma fl_pos_pos: "0 < y \<Longrightarrow> 0 < fl y"
proof -
  assume y: "0 < y"
  have "(0::real) < 2 powr of_int \<lfloor>log 2 y\<rfloor>" by simp
  also have "\<dots> \<le> fl y" by (rule fl_pos_range(1) [OF y])
  finally show ?thesis .
qed

lemma fl_mono:
  assumes "x \<le> y"
  shows "fl x \<le> fl y"
proof -
  consider "0 < x" | "x = 0" "y = 0" | "x = 0" "0 < y" | "x < 0" "0 \<le> y" | "x < 0" "y < 0"
    using assms by linarith
  then show ?thesis
  proof cases
    case 1
    then show ?thesis using assms by (rule fl_pos_mono)
  next
    case 2
    then show ?thesis by simp
  next
    case 3
    then show ?thesis using fl_pos_pos [of y] by (simp add: fl_zero)
  next
    case 4
    have "fl x < 0" using fl_pos_pos [of "- x"] 4(1) by (simp add: fl_minus)
    moreover have "0 \<le> fl y" using fl_pos_pos [of y] 4(2) fl_zero by (cases "y = 0") auto
    ultimately show ?thesis by simp
  next
    case 5
    have "fl (- y) \<le> fl (- x)" using 5 assms by (intro fl_pos_mono) simp_all
    then show ?thesis by (simp add: fl_minus)
  qed
qed

lemma fl_err: "\<bar>fl x - x\<bar> \<le> unit_roundoff * \<bar>x\<bar>"
proof -
  consider "0 < x" | "x = 0" | "x < 0" by linarith
  then show ?thesis
  proof cases
    case 1
    then show ?thesis using fl_pos_err [of x] by simp
  next
    case 2
    then show ?thesis by (simp add: fl_zero)
  next
    case 3
    then have "\<bar>fl (- x) - (- x)\<bar> \<le> unit_roundoff * (- x)"
      by (intro fl_pos_err) simp
    then show ?thesis using 3 by (simp add: fl_minus abs_minus_commute)
  qed
qed

lemma unit_roundoff_range: "0 < unit_roundoff" "unit_roundoff < 1"
  by (simp_all add: unit_roundoff_def)

lemma fl_nonneg: "0 \<le> y \<Longrightarrow> 0 \<le> fl y"
  using fl_mono [of 0 y] by (simp add: fl_zero)

lemma fl_upper: "fl y \<le> y + unit_roundoff * \<bar>y\<bar>"
  using fl_err [of y] by linarith

lemma fl_lower: "y - unit_roundoff * \<bar>y\<bar> \<le> fl y"
  using fl_err [of y] by linarith

lemma fl_upper_nonneg: "0 \<le> y \<Longrightarrow> fl y \<le> y * (1 + unit_roundoff)"
  using fl_upper [of y] by (simp add: algebra_simps)

lemma fl_lower_nonneg: "0 \<le> y \<Longrightarrow> y * (1 - unit_roundoff) \<le> fl y"
  using fl_lower [of y] by (simp add: algebra_simps)

lemma fl_of_int_pos:
  assumes "0 < n" "n < 2 ^ 53"
  shows "fl (of_int n) = of_int n"
proof -
  define e where "e = \<lfloor>log 2 (of_int n)\<rfloor>"
  have n: "(0::real) < of_int n" using assms(1) by simp
  have lo: "(2::real) powr of_int e \<le> of_int n" and hi: "of_int n < (2::real) powr (of_int e + 1)"
    unfolding e_def using binade [OF n] by simp_all
  have e0: "0 \<le> e"
    unfolding e_def using assms(1) by simp
  have e52: "e \<le> 52"
  proof (rule ccontr)
    assume "\<not> e \<le> 52"
    then have "53 \<le> e" by simp
    then have "(2::real) powr 53 \<le> 2 powr of_int e"
      by (intro powr_mono) simp_all
    then have "(2::real) ^ 53 \<le> of_int n" using lo by simp
    then have "(2::int) ^ 53 \<le> n" by (metis of_int_le_iff of_int_numeral of_int_power)
    then show False using assms(2) by simp
  qed
  define k where "k = nat (52 - e)"
  have k: "of_int e - 52 = - real k" using e52 by (simp add: k_def)
  have u: "ulp53 (of_int n) = 1 / 2 ^ k"
    unfolding ulp53_def e_def [symmetric]
    by (simp add: k powr_minus powr_realpow inverse_eq_divide)
  have "real_of_int n / ulp53 (of_int n) = of_int (n * 2 ^ k)"
    by (simp add: u)
  then have "rne (real_of_int n / ulp53 (of_int n)) = n * 2 ^ k"
    by (simp only: rne_of_int)
  then show ?thesis
    by (simp add: fl_pos_eq [OF n] u)
qed

lemma fl_of_int:
  assumes "\<bar>n\<bar> < 2 ^ 53"
  shows "fl (of_int n) = of_int n"
proof -
  consider "0 < n" | "n = 0" | "n < 0" by linarith
  then show ?thesis
  proof cases
    case 1
    then show ?thesis using assms by (intro fl_of_int_pos) simp_all
  next
    case 2
    then show ?thesis by (simp add: fl_zero)
  next
    case 3
    then have "fl (of_int (- n)) = of_int (- n)" using assms by (intro fl_of_int_pos) simp_all
    then show ?thesis by (simp add: fl_minus)
  qed
qed

lemma fl_eval:
  assumes "2 ^ k \<le> y" "y < 2 * 2 ^ k"
  shows "fl y = of_int (rne (y * 2 ^ 52 / 2 ^ k)) * 2 ^ k / 2 ^ 52"
proof -
  have "(0::real) < 2 ^ k" by simp
  then have y: "0 < y" using assms(1) by linarith
  have "\<lfloor>log 2 y\<rfloor> = int k"
    using floor_log_eq_powr_iff [of y 2 "int k"] y assms
    by (simp add: powr_realpow powr_add)
  then have u: "ulp53 y = 2 ^ k / 2 ^ 52"
    by (simp add: ulp53_eq powr_realpow)
  show ?thesis by (simp add: fl_pos_eq [OF y] u)
qed

lemma fl_example_scale: "fl (820 / 21) = 5495463831017570 / 2 ^ 47"
  by (subst fl_eval [of 5]) (simp_all add: rne_def)

lemma fl_example_product: "fl (21 * (5495463831017570 / 2 ^ 47)) = 820 + 1 / 2 ^ 43"
  by (subst fl_eval [of 9]) (simp_all add: rne_def)

lemma fl_example_sum: "fl (820 + 1 / 2 ^ 43 + 40) = 860 + 1 / 2 ^ 43"
  by (subst fl_eval [of 9]) (simp_all add: rne_def)

subsection \<open>The normalizer in binary64 arithmetic\<close>

lemma normalize_blocks_rnd_id: "normalize_blocks_rnd (\<lambda>x. x) bs p c = normalize_blocks bs p c"
  by (simp add: normalize_blocks_rnd_def normalize_blocks_def norm_scale_def norm_width_def
      norm_height_def extent_x_def extent_y_def Let_def)

lemma endpoints_normalize_rnd:
  assumes "endpoints bs \<noteq> []"
  shows "endpoints (fst (normalize_blocks_rnd rnd bs p c)) =
    map (\<lambda>(x, y).
      (rnd (rnd (rnd (x - Min (set (map fst (endpoints bs)))) *
           rnd (rnd (c - 2 * p) /
             max (py_or_1 (rnd (extent_x (endpoints bs)))) (py_or_1 (rnd (extent_y (endpoints bs)))))) + p),
       rnd (rnd (rnd (y - Min (set (map snd (endpoints bs)))) *
           rnd (rnd (c - 2 * p) /
             max (py_or_1 (rnd (extent_x (endpoints bs)))) (py_or_1 (rnd (extent_y (endpoints bs)))))) + p)))
      (endpoints bs)"
  using assms
  by (simp add: normalize_blocks_rnd_def Let_def extent_x_def extent_y_def endpoints_map)

lemma pow_facts:
  "unit_roundoff \<le> (1 + unit_roundoff) ^ 4 - 1"
  "1 - (1 - unit_roundoff) ^ 4 \<le> (1 + unit_roundoff) ^ 4 - 1"
  "0 \<le> (1 + unit_roundoff) ^ 4 - 1"
proof -
  define u where "u = unit_roundoff"
  have u: "0 < u" "u < 1" using unit_roundoff_range by (simp_all add: u_def)
  have e1: "(1 + u) ^ 4 = 1 + 4 * u + 6 * u ^ 2 + 4 * u ^ 3 + u ^ 4"
    by (simp add: power4_eq_xxxx power2_eq_square power3_eq_cube algebra_simps)
  have e2: "(1 - u) ^ 4 = 1 - 4 * u + 6 * u ^ 2 - 4 * u ^ 3 + u ^ 4"
    by (simp add: power4_eq_xxxx power2_eq_square power3_eq_cube algebra_simps)
  have p2: "0 \<le> u ^ 2" and p3: "0 \<le> u ^ 3" and p4: "0 \<le> u ^ 4" using u by simp_all
  show "unit_roundoff \<le> (1 + unit_roundoff) ^ 4 - 1"
    unfolding u_def [symmetric] e1 using u p2 p3 p4 by linarith
  show "1 - (1 - unit_roundoff) ^ 4 \<le> (1 + unit_roundoff) ^ 4 - 1"
    unfolding u_def [symmetric] e1 e2 using u p2 p3 p4 by linarith
  show "0 \<le> (1 + unit_roundoff) ^ 4 - 1"
    unfolding u_def [symmetric] e1 using u p2 p3 p4 by linarith
qed

lemma coord_bounds:
  assumes K: "0 \<le> K" and p: "fl p = p" and v: "lo \<le> v" "v \<le> hi"
    and M: "py_or_1 (fl (hi - lo)) \<le> M" "0 < M"
  shows "p \<le> fl (fl (fl (v - lo) * fl (fl K / M)) + p)"
    and "fl (fl (fl (v - lo) * fl (fl K / M)) + p)
           \<le> K + p + ((1 + unit_roundoff) ^ 4 - 1) * (K + \<bar>p\<bar>)"
proof -
  define a where "a = 1 + unit_roundoff"
  have a: "1 \<le> a" "0 \<le> a" using unit_roundoff_range by (simp_all add: a_def)
  define d where "d = fl (v - lo)"
  define s where "s = fl (fl K / M)"
  define prod where "prod = fl (d * s)"
  have d0: "0 \<le> d" unfolding d_def using v by (intro fl_nonneg) simp
  have dM: "d \<le> M"
  proof (cases "fl (hi - lo) = 0")
    case True
    have "d \<le> fl (hi - lo)" unfolding d_def using v by (intro fl_mono) simp
    then show ?thesis using True M(2) by simp
  next
    case False
    have "d \<le> fl (hi - lo)" unfolding d_def using v by (intro fl_mono) simp
    then show ?thesis using False M(1) by (simp add: py_or_1_def)
  qed
  have Kf0: "0 \<le> fl K" using K by (rule fl_nonneg)
  have KfU: "fl K \<le> K * a" unfolding a_def using K by (rule fl_upper_nonneg)
  have q0: "0 \<le> fl K / M" using Kf0 M(2) by simp
  have s0: "0 \<le> s" unfolding s_def using q0 by (rule fl_nonneg)
  have sU: "s \<le> fl K / M * a" unfolding s_def a_def using q0 by (rule fl_upper_nonneg)
  have ds0: "0 \<le> d * s" using d0 s0 by simp
  have "d * s \<le> M * s" using dM s0 by (rule mult_right_mono)
  also have "\<dots> \<le> M * (fl K / M * a)" using sU M(2) by (intro mult_left_mono) simp_all
  also have "\<dots> = fl K * a" using M(2) by simp
  also have "\<dots> \<le> K * a * a" using KfU a(2) by (rule mult_right_mono)
  finally have dsU: "d * s \<le> K * a * a" .
  have prod0: "0 \<le> prod" unfolding prod_def using ds0 by (rule fl_nonneg)
  have "prod \<le> d * s * a" unfolding prod_def a_def using ds0 by (rule fl_upper_nonneg)
  also have "\<dots> \<le> K * a * a * a" using dsU a(2) by (rule mult_right_mono)
  finally have prodU: "prod \<le> K * a * a * a" .
  have out: "fl (fl (fl (v - lo) * fl (fl K / M)) + p) = fl (prod + p)"
    by (simp add: prod_def d_def s_def)
  have "fl p \<le> fl (prod + p)" using prod0 by (intro fl_mono) simp
  then show "p \<le> fl (fl (fl (v - lo) * fl (fl K / M)) + p)"
    by (simp add: out p)
  define T where "T = K * a * a * a + p"
  have Ka: "0 \<le> K * a * a * a" using K a(2) by simp
  have "fl (prod + p) \<le> fl T" unfolding T_def using prodU by (intro fl_mono) simp
  also have "\<dots> \<le> T + unit_roundoff * \<bar>T\<bar>" by (rule fl_upper)
  also have "\<dots> \<le> T + unit_roundoff * (K * a * a * a + \<bar>p\<bar>)"
  proof -
    have "\<bar>T\<bar> \<le> K * a * a * a + \<bar>p\<bar>" unfolding T_def using Ka by linarith
    then show ?thesis using unit_roundoff_range(1) by (simp add: mult_left_mono)
  qed
  also have "\<dots> = K * a ^ 4 + p + unit_roundoff * \<bar>p\<bar>"
    by (simp add: T_def a_def power4_eq_xxxx algebra_simps)
  also have "\<dots> \<le> K * a ^ 4 + p + (a ^ 4 - 1) * \<bar>p\<bar>"
  proof -
    have "unit_roundoff * \<bar>p\<bar> \<le> (a ^ 4 - 1) * \<bar>p\<bar>"
      unfolding a_def using pow_facts(1) by (intro mult_right_mono) simp_all
    then show ?thesis by simp
  qed
  also have "\<dots> = K + p + (a ^ 4 - 1) * (K + \<bar>p\<bar>)" by (simp add: algebra_simps)
  finally show "fl (fl (fl (v - lo) * fl (fl K / M)) + p)
           \<le> K + p + ((1 + unit_roundoff) ^ 4 - 1) * (K + \<bar>p\<bar>)"
    by (simp add: out a_def)
qed

lemma coord_max_lower:
  assumes K: "0 \<le> K" and M: "0 < M"
  shows "K + p - ((1 + unit_roundoff) ^ 4 - 1) * (K + \<bar>p\<bar>)
           \<le> fl (fl (M * fl (fl K / M)) + p)"
proof -
  define b where "b = 1 - unit_roundoff"
  have b: "0 \<le> b" "b \<le> 1" using unit_roundoff_range by (simp_all add: b_def)
  define s where "s = fl (fl K / M)"
  define prod where "prod = fl (M * s)"
  have Kf0: "0 \<le> fl K" using K by (rule fl_nonneg)
  have KfL: "K * b \<le> fl K" unfolding b_def using K by (rule fl_lower_nonneg)
  have q0: "0 \<le> fl K / M" using Kf0 M by simp
  have s0: "0 \<le> s" unfolding s_def using q0 by (rule fl_nonneg)
  have sL: "fl K / M * b \<le> s" unfolding s_def b_def using q0 by (rule fl_lower_nonneg)
  have Ms0: "0 \<le> M * s" using M s0 by simp
  have "K * b * b \<le> fl K * b" using KfL b(1) by (rule mult_right_mono)
  also have "\<dots> = M * (fl K / M * b)" using M by simp
  also have "\<dots> \<le> M * s" using sL M by (intro mult_left_mono) simp_all
  finally have MsL: "K * b * b \<le> M * s" .
  have "K * b * b * b \<le> M * s * b" using MsL b(1) by (rule mult_right_mono)
  also have "\<dots> \<le> prod" unfolding prod_def b_def using Ms0 by (rule fl_lower_nonneg)
  finally have prodL: "K * b * b * b \<le> prod" .
  define T where "T = K * b * b * b + p"
  have Kb: "0 \<le> K * b * b * b" using K b(1) by simp
  have "T - unit_roundoff * (K * b * b * b + \<bar>p\<bar>) \<le> T - unit_roundoff * \<bar>T\<bar>"
  proof -
    have "\<bar>T\<bar> \<le> K * b * b * b + \<bar>p\<bar>" unfolding T_def using Kb by linarith
    then have "unit_roundoff * \<bar>T\<bar> \<le> unit_roundoff * (K * b * b * b + \<bar>p\<bar>)"
      using unit_roundoff_range(1) by (simp add: mult_left_mono)
    then show ?thesis by simp
  qed
  also have "\<dots> \<le> fl T" by (rule fl_lower)
  also have "\<dots> \<le> fl (prod + p)" unfolding T_def using prodL by (intro fl_mono) simp
  finally have low: "T - unit_roundoff * (K * b * b * b + \<bar>p\<bar>) \<le> fl (prod + p)" .
  have eq: "T - unit_roundoff * (K * b * b * b + \<bar>p\<bar>) = K * b ^ 4 + p - unit_roundoff * \<bar>p\<bar>"
    by (simp add: T_def b_def power4_eq_xxxx algebra_simps)
  have "K * (1 - b ^ 4) \<le> K * ((1 + unit_roundoff) ^ 4 - 1)"
    unfolding b_def using pow_facts(2) K by (intro mult_left_mono) simp_all
  moreover have "unit_roundoff * \<bar>p\<bar> \<le> ((1 + unit_roundoff) ^ 4 - 1) * \<bar>p\<bar>"
    using pow_facts(1) by (intro mult_right_mono) simp_all
  ultimately have "K + p - ((1 + unit_roundoff) ^ 4 - 1) * (K + \<bar>p\<bar>)
      \<le> K * b ^ 4 + p - unit_roundoff * \<bar>p\<bar>"
    by (simp add: algebra_simps)
  then show ?thesis using low eq by (simp add: prod_def s_def)
qed

lemma py_or_1_pos: "0 \<le> v \<Longrightarrow> 0 < py_or_1 v"
  by (simp add: py_or_1_def)

text \<open>
  C2, amended. With no segment endpoint at all the input is returned unchanged. Otherwise,
  for a padding \<open>p\<close> that is a binary64 number and a canvas \<open>c\<close> with \<open>2 * p \<le> c\<close>, every
  endpoint coordinate the program computes is at least \<open>p\<close> and at most \<open>c - p\<close> plus the
  rounding tolerance, and when the bounding box is non-degenerate (both extents positive)
  the maximum coordinate along its longer axis is \<open>c - p\<close> within that tolerance.
\<close>

theorem normalize_blocks_fl_in_canvas:
  assumes "2 * p \<le> c" and "fl p = p"
  shows "(endpoints bs = [] \<longrightarrow> normalize_blocks_fl bs p c = (bs, c))
   \<and> (endpoints bs \<noteq> [] \<longrightarrow>
        (\<forall>(x, y) \<in> set (endpoints (fst (normalize_blocks_fl bs p c))).
            p \<le> x \<and> x \<le> c - p + rounding_tolerance p c
          \<and> p \<le> y \<and> y \<le> c - p + rounding_tolerance p c)
      \<and> (0 < extent_x (endpoints bs) \<and> 0 < extent_y (endpoints bs)
           \<and> extent_y (endpoints bs) \<le> extent_x (endpoints bs) \<longrightarrow>
           \<bar>Max (set (map fst (endpoints (fst (normalize_blocks_fl bs p c))))) - (c - p)\<bar>
             \<le> rounding_tolerance p c)
      \<and> (0 < extent_x (endpoints bs) \<and> 0 < extent_y (endpoints bs)
           \<and> extent_x (endpoints bs) \<le> extent_y (endpoints bs) \<longrightarrow>
           \<bar>Max (set (map snd (endpoints (fst (normalize_blocks_fl bs p c))))) - (c - p)\<bar>
             \<le> rounding_tolerance p c))"
proof (intro conjI impI)
  assume "endpoints bs = []"
  then show "normalize_blocks_fl bs p c = (bs, c)"
    by (simp add: normalize_blocks_fl_def normalize_blocks_rnd_def)
next
  assume ne0: "endpoints bs \<noteq> []"
  define pts where "pts = endpoints bs"
  define minx where "minx = Min (set (map fst pts))"
  define miny where "miny = Min (set (map snd pts))"
  define maxx where "maxx = Max (set (map fst pts))"
  define maxy where "maxy = Max (set (map snd pts))"
  define K where "K = c - 2 * p"
  define M where "M = max (py_or_1 (fl (extent_x pts))) (py_or_1 (fl (extent_y pts)))"
  define tol where "tol = ((1 + unit_roundoff) ^ 4 - 1) * (K + \<bar>p\<bar>)"
  define fx where "fx = (\<lambda>x. fl (fl (fl (x - minx) * fl (fl K / M)) + p))"
  define fy where "fy = (\<lambda>y. fl (fl (fl (y - miny) * fl (fl K / M)) + p))"
  have ne: "pts \<noteq> []" using ne0 by (simp add: pts_def)
  have K0: "0 \<le> K" using assms(1) by (simp add: K_def)
  have cp: "c - p = K + p" by (simp add: K_def)
  have tol: "rounding_tolerance p c = tol" by (simp add: rounding_tolerance_def tol_def K_def)
  have ex: "extent_x pts = maxx - minx" and ey: "extent_y pts = maxy - miny"
    by (simp_all add: extent_x_def extent_y_def maxx_def minx_def maxy_def miny_def)
  have Wr0: "0 \<le> fl (extent_x pts)" using extent_x_nonneg [OF ne] by (rule fl_nonneg)
  have Hr0: "0 \<le> fl (extent_y pts)" using extent_y_nonneg [OF ne] by (rule fl_nonneg)
  have M0: "0 < M" unfolding M_def using py_or_1_pos [OF Wr0] by simp
  have MW: "py_or_1 (fl (maxx - minx)) \<le> M" by (simp add: M_def ex)
  have MH: "py_or_1 (fl (maxy - miny)) \<le> M" by (simp add: M_def ey)
  have out: "endpoints (fst (normalize_blocks_fl bs p c)) = map (\<lambda>(x, y). (fx x, fy y)) pts"
    unfolding normalize_blocks_fl_def endpoints_normalize_rnd [OF ne0]
    by (simp add: fx_def fy_def M_def K_def minx_def miny_def pts_def)
  have bx: "p \<le> fx x \<and> fx x \<le> K + p + tol" if "x \<in> set (map fst pts)" for x
  proof -
    have "minx \<le> x" "x \<le> maxx" using that by (simp_all add: minx_def maxx_def)
    from coord_bounds [OF K0 assms(2) this MW M0] show ?thesis
      by (simp add: fx_def tol_def)
  qed
  have "by": "p \<le> fy y \<and> fy y \<le> K + p + tol" if "y \<in> set (map snd pts)" for y
  proof -
    have "miny \<le> y" "y \<le> maxy" using that by (simp_all add: miny_def maxy_def)
    from coord_bounds [OF K0 assms(2) this MH M0] show ?thesis
      by (simp add: fy_def tol_def)
  qed
  show "\<forall>(x, y) \<in> set (endpoints (fst (normalize_blocks_fl bs p c))).
            p \<le> x \<and> x \<le> c - p + rounding_tolerance p c
          \<and> p \<le> y \<and> y \<le> c - p + rounding_tolerance p c"
  proof -
    have "p \<le> fx x \<and> fx x \<le> K + p + tol \<and> p \<le> fy y \<and> fy y \<le> K + p + tol"
      if "(x, y) \<in> set pts" for x y
    proof -
      have "x \<in> set (map fst pts)" "y \<in> set (map snd pts)" using that by force+
      then show ?thesis using bx "by" by simp
    qed
    then show ?thesis unfolding out cp tol by auto
  qed
  have sx: "set (map fst (endpoints (fst (normalize_blocks_fl bs p c)))) = fx ` set (map fst pts)"
    unfolding out by force
  have sy: "set (map snd (endpoints (fst (normalize_blocks_fl bs p c)))) = fy ` set (map snd pts)"
    unfolding out by force
  have fin: "finite (set (map fst pts))" "set (map fst pts) \<noteq> {}"
    "finite (set (map snd pts))" "set (map snd pts) \<noteq> {}"
    using ne by simp_all
  show "\<bar>Max (set (map fst (endpoints (fst (normalize_blocks_fl bs p c))))) - (c - p)\<bar>
             \<le> rounding_tolerance p c"
    if h: "0 < extent_x (endpoints bs) \<and> 0 < extent_y (endpoints bs)
           \<and> extent_y (endpoints bs) \<le> extent_x (endpoints bs)"
  proof -
    have W: "0 < fl (extent_x pts)" and H: "0 < fl (extent_y pts)"
      using h by (simp_all add: pts_def fl_pos_pos)
    have "fl (extent_y pts) \<le> fl (extent_x pts)" using h by (intro fl_mono) (simp add: pts_def)
    then have Meq: "M = fl (maxx - minx)"
      using W H by (simp add: M_def py_or_1_def ex)
    have "fx maxx = fl (fl (M * fl (fl K / M)) + p)" by (simp add: fx_def Meq)
    then have lo: "K + p - tol \<le> fx maxx"
      using coord_max_lower [OF K0 M0, of p] by (simp add: tol_def)
    have "maxx \<in> set (map fst pts)" unfolding maxx_def using fin(1,2) by (rule Max_in)
    then have "fx maxx \<le> Max (fx ` set (map fst pts))" using fin(1) by (intro Max_ge) simp_all
    moreover have "Max (fx ` set (map fst pts)) \<le> K + p + tol"
      using fin(1,2) bx by (subst Max_le_iff) auto
    ultimately show ?thesis unfolding sx cp tol using lo by linarith
  qed
  show "\<bar>Max (set (map snd (endpoints (fst (normalize_blocks_fl bs p c))))) - (c - p)\<bar>
             \<le> rounding_tolerance p c"
    if h: "0 < extent_x (endpoints bs) \<and> 0 < extent_y (endpoints bs)
           \<and> extent_x (endpoints bs) \<le> extent_y (endpoints bs)"
  proof -
    have W: "0 < fl (extent_x pts)" and H: "0 < fl (extent_y pts)"
      using h by (simp_all add: pts_def fl_pos_pos)
    have "fl (extent_x pts) \<le> fl (extent_y pts)" using h by (intro fl_mono) (simp add: pts_def)
    then have Meq: "M = fl (maxy - miny)"
      using W H by (simp add: M_def py_or_1_def ey)
    have "fy maxy = fl (fl (M * fl (fl K / M)) + p)" by (simp add: fy_def Meq)
    then have lo: "K + p - tol \<le> fy maxy"
      using coord_max_lower [OF K0 M0, of p] by (simp add: tol_def)
    have "maxy \<in> set (map snd pts)" unfolding maxy_def using fin(3,4) by (rule Max_in)
    then have "fy maxy \<le> Max (fy ` set (map snd pts))" using fin(3) by (intro Max_ge) simp_all
    moreover have "Max (fy ` set (map snd pts)) \<le> K + p + tol"
      using fin(3,4) "by" by (subst Max_le_iff) auto
    ultimately show ?thesis unfolding sy cp tol using lo by linarith
  qed
qed

lemma fl_small_ints:
  "fl 1 = 1" "fl 2 = 2" "fl 4 = 4" "fl 21 = 21" "fl 40 = 40" "fl 400 = 400" "fl 450 = 450"
  "fl 500 = 500" "fl 820 = 820" "fl (- 25) = - 25" "fl (- 50) = - 50" "fl (- 100) = - 100"
  using fl_of_int [of 1] fl_of_int [of 2] fl_of_int [of 4] fl_of_int [of 21] fl_of_int [of 40]
    fl_of_int [of 400] fl_of_int [of 450] fl_of_int [of 500] fl_of_int [of 820]
    fl_of_int [of "- 25"] fl_of_int [of "- 50"] fl_of_int [of "- 100"]
  by simp_all

lemma fl_example_scale_again: "fl (5495463831017570 / 2 ^ 47) = 5495463831017570 / 2 ^ 47"
  by (subst fl_eval [of 5]) (simp_all add: rne_def)

lemma fl_example_sum_y: "fl (5495463831017570 / 2 ^ 47 + 40) = 5562481682615345 / 2 ^ 46"
  by (subst fl_eval [of 6]) (simp_all add: rne_def)

lemma endpoints_wide: "endpoints [[(0, 0, 21, 1)]] = [(0, 0), (21, 1)]"
  by (simp add: endpoints_def block_points_def)

lemma normalize_fl_wide:
  "normalize_blocks_fl [[(0, 0, 21, 1)]] 40 900
   = ([[(40, 40, 860 + 1 / 2 ^ 43, 5562481682615345 / 2 ^ 46)]], 900)"
proof -
  define S :: real where "S = 5495463831017570 / 2 ^ 47"
  have m: "max (py_or_1 21) (py_or_1 1) = 21" by (simp add: py_or_1_def)
  have s: "fl (820 / 21) = S" unfolding S_def by (rule fl_example_scale)
  have "fl (fl (21 * S) + 40) = fl (820 + 1 / 2 ^ 43 + 40)"
    unfolding S_def by (simp only: fl_example_product)
  then have x2: "fl (fl (21 * S) + 40) = 860 + 1 / 2 ^ 43"
    by (simp only: fl_example_sum)
  have "fl (fl (1 * S) + 40) = fl (S + 40)"
    unfolding S_def by (simp only: mult_1 fl_example_scale_again)
  then have y2: "fl (fl (1 * S) + 40) = 5562481682615345 / 2 ^ 46"
    unfolding S_def by (simp only: fl_example_sum_y)
  have z: "fl (fl (0 * S) + 40) = 40"
    by (simp add: fl_zero fl_small_ints)
  have "normalize_blocks_fl [[(0, 0, 21, 1)]] 40 900
      = ([[(fl (fl (0 * S) + 40), fl (fl (0 * S) + 40), fl (fl (21 * S) + 40), fl (fl (1 * S) + 40))]],
         900)"
    unfolding normalize_blocks_fl_def normalize_blocks_rnd_def endpoints_wide
    by (simp add: Let_def fl_small_ints fl_zero m s)
  then show ?thesis by (simp only: x2 y2 z)
qed

lemma endpoints_small: "endpoints [[(0, 0, 4, 2)]] = [(0, 0), (4, 2)]"
  by (simp add: endpoints_def block_points_def)

lemma normalize_fl_inverted:
  "normalize_blocks_fl [[(0, 0, 4, 2)]] 500 900 = ([[(500, 500, 400, 450)]], 900)"
  unfolding normalize_blocks_fl_def normalize_blocks_rnd_def endpoints_small
  by (simp add: Let_def fl_small_ints fl_zero py_or_1_def)

text \<open>
  In the reference configuration, padding 40 and canvas 900, the segment from \<open>(0, 0)\<close> to
  \<open>(21, 1)\<close> is scaled by the rounded quotient of 820 by 21, and its far end lands on
  \<open>860 + 1 / 2 ^ 43\<close>, above \<open>c - p\<close>. With padding 500 and canvas 900 the scale is negative and
  the far end of a segment lands on \<open>(400, 450)\<close>, below the padding.
\<close>

theorem normalize_blocks_fl_counterexample:
  "fl 40 = 40
   \<and> normalize_blocks_fl [[(0, 0, 21, 1)]] 40 900
       = ([[(40, 40, 860 + 1 / 2 ^ 43, 5562481682615345 / 2 ^ 46)]], 900)
   \<and> \<not> (\<forall>(x, y) \<in> set (endpoints (fst (normalize_blocks_fl [[(0, 0, 21, 1)]] 40 900))).
          40 \<le> x \<and> x \<le> 900 - 40 \<and> 40 \<le> y \<and> y \<le> 900 - 40)
   \<and> Max (set (map fst (endpoints (fst (normalize_blocks_fl [[(0, 0, 21, 1)]] 40 900)))))
       \<noteq> 900 - 40
   \<and> normalize_blocks_fl [[(0, 0, 4, 2)]] 500 900 = ([[(500, 500, 400, 450)]], 900)
   \<and> \<not> (\<forall>(x, y) \<in> set (endpoints (fst (normalize_blocks_fl [[(0, 0, 4, 2)]] 500 900))).
          500 \<le> x \<and> x \<le> 900 - 500 \<and> 500 \<le> y \<and> y \<le> 900 - 500)"
proof -
  have e: "endpoints [[(40, 40, 860 + 1 / 2 ^ 43, 5562481682615345 / 2 ^ 46)]]
      = [(40, 40), (860 + 1 / 2 ^ 43, 5562481682615345 / 2 ^ 46)]"
    by (simp add: endpoints_def block_points_def)
  have f: "endpoints [[(500, 500, 400, 450)]] = [(500, 500), (400, 450)]"
    by (simp add: endpoints_def block_points_def)
  show ?thesis
    unfolding normalize_fl_wide normalize_fl_inverted fst_conv e f
    by (simp add: fl_small_ints)
qed

text \<open>
  The same segment in the reference configuration: the maximum \<open>x\<close> coordinate exceeds
  \<open>c - p\<close> by \<open>1 / 2 ^ 43\<close>, within the tolerance.
\<close>

theorem normalize_blocks_fl_in_canvas_witness:
  "(2::real) * 40 \<le> 900 \<and> fl 40 = 40
   \<and> endpoints [[(0, 0, 21, 1)]] \<noteq> []
   \<and> 0 < extent_x (endpoints [[(0, 0, 21, 1)]]) \<and> 0 < extent_y (endpoints [[(0, 0, 21, 1)]])
   \<and> extent_y (endpoints [[(0, 0, 21, 1)]]) \<le> extent_x (endpoints [[(0, 0, 21, 1)]])
   \<and> Max (set (map fst (endpoints (fst (normalize_blocks_fl [[(0, 0, 21, 1)]] 40 900)))))
       = 860 + 1 / 2 ^ 43
   \<and> \<bar>860 + 1 / 2 ^ 43 - (900 - 40)\<bar> \<le> rounding_tolerance 40 900
   \<and> endpoints [] = []
   \<and> normalize_blocks_fl [] 40 900 = ([], 900)"
proof -
  have h: "(2::real) * 40 \<le> 900" "fl 40 = 40" by (simp_all add: fl_small_ints)
  have x: "extent_x (endpoints [[(0, 0, 21, 1)]]) = 21" "extent_y (endpoints [[(0, 0, 21, 1)]]) = 1"
    by (simp_all add: endpoints_wide extent_x_def extent_y_def)
  have e: "endpoints [[(40, 40, 860 + 1 / 2 ^ 43, 5562481682615345 / 2 ^ 46)]]
      = [(40, 40), (860 + 1 / 2 ^ 43, 5562481682615345 / 2 ^ 46)]"
    by (simp add: endpoints_def block_points_def)
  have m: "Max (set (map fst (endpoints (fst (normalize_blocks_fl [[(0, 0, 21, 1)]] 40 900)))))
       = 860 + 1 / 2 ^ 43"
    unfolding normalize_fl_wide fst_conv e by simp
  have z: "endpoints [] = []" by (simp add: endpoints_def)
  have t: "\<bar>Max (set (map fst (endpoints (fst (normalize_blocks_fl [[(0, 0, 21, 1)]] 40 900)))))
        - (900 - 40)\<bar> \<le> rounding_tolerance 40 900"
    using normalize_blocks_fl_in_canvas [OF h, of "[[(0, 0, 21, 1)]]"] x
    by (simp add: endpoints_wide)
  have n: "normalize_blocks_fl [] 40 900 = ([], 900)"
    using normalize_blocks_fl_in_canvas [OF h, of "[]"] z by simp
  show ?thesis
    using h x z n t unfolding m by (simp add: endpoints_wide)
qed

subsection \<open>Width and height\<close>

text \<open>
  C6, amended. For a non-empty list of endpoints, the width used in the scale is the extent
  \<open>maxx - minx\<close> when that is not zero and 1 when it is exactly zero, and likewise the
  height; so it is \<open>max (maxx - minx) 1\<close> when the extent is zero or at least 1, it is always
  positive, and the scale divides by the larger of the two.
\<close>

theorem norm_width_height_or_1:
  assumes "pts \<noteq> []"
  shows "norm_width pts = (if extent_x pts = 0 then 1 else extent_x pts)
       \<and> norm_height pts = (if extent_y pts = 0 then 1 else extent_y pts)
       \<and> (extent_x pts = 0 \<or> 1 \<le> extent_x pts \<longrightarrow> norm_width pts = max (extent_x pts) 1)
       \<and> (extent_y pts = 0 \<or> 1 \<le> extent_y pts \<longrightarrow> norm_height pts = max (extent_y pts) 1)
       \<and> 0 < norm_width pts \<and> 0 < norm_height pts
       \<and> norm_scale pts p c = (c - 2 * p) / max (norm_width pts) (norm_height pts)"
  using norm_width_pos [OF assms] norm_height_pos [OF assms]
  by (auto simp: norm_width_def norm_height_def py_or_1_def norm_scale_def)

text \<open>A single point: both extents are zero, width and height are 1, the scale is 820.\<close>

theorem norm_width_height_or_1_witness:
  "[(3, 7)] \<noteq> ([] :: point list) \<and> extent_x [(3, 7)] = 0 \<and> extent_y [(3, 7)] = 0
   \<and> norm_width [(3, 7)] = 1 \<and> norm_height [(3, 7)] = 1
   \<and> norm_scale [(3, 7)] 40 900 = 820"
proof -
  have e: "extent_x [(3, 7)] = 0" "extent_y [(3, 7)] = 0"
    by (simp_all add: extent_x_def extent_y_def)
  show ?thesis
    using norm_width_height_or_1 [of "[(3, 7)]" 40 900] e by simp
qed

text \<open>An extent of one half is kept as the width; it is not replaced by 1.\<close>

theorem norm_width_counterexample:
  "endpoints [[(0, 0, 1 / 2, 0)]] \<noteq> []
   \<and> extent_x (endpoints [[(0, 0, 1 / 2, 0)]]) = 1 / 2
   \<and> norm_width (endpoints [[(0, 0, 1 / 2, 0)]]) = 1 / 2
   \<and> norm_width (endpoints [[(0, 0, 1 / 2, 0)]]) \<noteq> max (extent_x (endpoints [[(0, 0, 1 / 2, 0)]])) 1"
  by (simp add: endpoints_def block_points_def norm_width_def py_or_1_def extent_x_def)

section \<open>Properties of colour parsing\<close>

lemma hex_digit_not_space: "is_hex_digit c \<Longrightarrow> \<not> is_space c"
  by (auto simp: is_hex_digit_def is_space_def Let_def)

lemma hex_digit_not_hash: "is_hex_digit c \<Longrightarrow> c \<noteq> CHR ''#''"
  by (auto simp: is_hex_digit_def Let_def)

lemma strip_hex_digits:
  assumes "s \<noteq> []" "\<not> is_space (hd s)" "\<not> is_space (last s)"
  shows "strip s = s"
proof -
  obtain c r where s: "s = c # r" using assms(1) by (cases s) auto
  have 1: "dropWhile is_space s = s" using assms(2) s by simp
  obtain d q where q: "rev s = d # q" using assms(1) by (cases "rev s") auto
  then have "d = last s" using assms(1) by (metis hd_rev list.sel(1))
  then have "dropWhile is_space (d # q) = d # q"
    using assms(3) by simp
  then have 2: "dropWhile is_space (rev s) = rev s"
    by (simp only: q)
  show ?thesis by (simp add: strip_def 1 2)
qed

lemma int16_pair: "int16 [a, b] = 16 * hex_val a + hex_val b"
  by (simp add: int16_def)

lemma length_double: "length (concat (map (\<lambda>c. [c, c]) h)) = 2 * length h"
  by (induction h) simp_all

lemma list_all_double: "list_all P (concat (map (\<lambda>c. [c, c]) h)) = list_all P h"
  by (induction h) auto

lemma hex_to_rgb_accepts_iff:
  "(\<exists>v. hex_to_rgb s = Inr v) \<longleftrightarrow> accepted_hex s"
  by (auto simp: hex_to_rgb_def accepted_hex_def hex_3_or_6_def Let_def length_double list_all_double)

lemma hex_to_rgb_rejects:
  "\<not> accepted_hex s \<Longrightarrow> hex_to_rgb s = Inl (HTTPException 400 (''Invalid color: '' @ s))"
  by (auto simp: hex_to_rgb_def accepted_hex_def hex_3_or_6_def Let_def length_double list_all_double)

lemma hex_to_rgb_six:
  assumes "list_all is_hex_digit [a, b, c, d, e, f]"
  shows "hex_to_rgb [a, b, c, d, e, f] =
    Inr (16 * hex_val a + hex_val b, 16 * hex_val c + hex_val d, 16 * hex_val e + hex_val f)"
proof -
  have s: "strip [a, b, c, d, e, f] = [a, b, c, d, e, f]"
    using assms by (intro strip_hex_digits) (simp_all add: hex_digit_not_space)
  have l: "lstrip_hash [a, b, c, d, e, f] = [a, b, c, d, e, f]"
    using assms by (simp add: lstrip_hash_def hex_digit_not_hash)
  show ?thesis
    using assms by (simp add: hex_to_rgb_def s l int16_pair)
qed

lemma hex_to_rgb_three:
  assumes "list_all is_hex_digit [a, b, c]"
  shows "hex_to_rgb [a, b, c] = Inr (17 * hex_val a, 17 * hex_val b, 17 * hex_val c)"
proof -
  have s: "strip [a, b, c] = [a, b, c]"
    using assms by (intro strip_hex_digits) (simp_all add: hex_digit_not_space)
  have l: "lstrip_hash [a, b, c] = [a, b, c]"
    using assms by (simp add: lstrip_hash_def hex_digit_not_hash)
  show ?thesis
    using assms by (simp add: hex_to_rgb_def s l int16_pair)
qed


text \<open>
  C9, amended. \<^verbatim>\<open>hex_to_rgb("fff")\<close> and \<^verbatim>\<open>hex_to_rgb("ffffff")\<close> are both \<open>(255, 255, 255)\<close>,
  and every string of three hex digits parses as its doubled six-digit expansion. An input
  is accepted exactly when, after \<^verbatim>\<open>strip()\<close> has removed the surrounding whitespace and
  \<^verbatim>\<open>lstrip("#")\<close> every leading \<^verbatim>\<open>#\<close>, three or six hex digits remain; every other input
  raises the status-400 error whose detail names the input as it was given.
\<close>

theorem hex_to_rgb_parses:
  "hex_to_rgb ''fff'' = Inr (255, 255, 255) \<and> hex_to_rgb ''ffffff'' = Inr (255, 255, 255)
   \<and> (is_hex_digit a \<and> is_hex_digit b \<and> is_hex_digit c \<longrightarrow>
        hex_to_rgb [a, b, c] = hex_to_rgb [a, a, b, b, c, c])
   \<and> (accepted_hex s \<longrightarrow> (\<exists>v. hex_to_rgb s = Inr v))
   \<and> (\<not> accepted_hex s \<longrightarrow> hex_to_rgb s = Inl (HTTPException 400 (''Invalid color: '' @ s)))"
proof (intro conjI impI)
  show "hex_to_rgb ''fff'' = Inr (255, 255, 255)"
    by (simp add: hex_to_rgb_def strip_def is_space_def lstrip_hash_def is_hex_digit_def
        int16_def hex_val_def)
  show "hex_to_rgb ''ffffff'' = Inr (255, 255, 255)"
    by (simp add: hex_to_rgb_def strip_def is_space_def lstrip_hash_def is_hex_digit_def
        int16_def hex_val_def)
  show "hex_to_rgb [a, b, c] = hex_to_rgb [a, a, b, b, c, c]"
    if "is_hex_digit a \<and> is_hex_digit b \<and> is_hex_digit c"
    using that hex_to_rgb_three [of a b c] hex_to_rgb_six [of a a b b c c] by simp
  show "\<exists>v. hex_to_rgb s = Inr v" if "accepted_hex s"
    using that hex_to_rgb_accepts_iff [of s] by blast
  show "hex_to_rgb s = Inl (HTTPException 400 (''Invalid color: '' @ s))" if "\<not> accepted_hex s"
    using that by (rule hex_to_rgb_rejects)
qed

text \<open>
  Three hex digits against their expansion, an accepted input with whitespace and a
  \<^verbatim>\<open>#\<close>, and two rejected inputs: no hex digits, and five of them.
\<close>

theorem hex_to_rgb_parses_witness:
  "is_hex_digit CHR ''1'' \<and> is_hex_digit CHR ''a'' \<and> is_hex_digit CHR ''F''
   \<and> hex_to_rgb ''1aF'' = hex_to_rgb ''11aaFF''
   \<and> hex_to_rgb ''11aaFF'' = Inr (17, 170, 255)
   \<and> accepted_hex '' #1aF '' \<and> hex_to_rgb '' #1aF '' = Inr (17, 170, 255)
   \<and> \<not> accepted_hex ''zzz''
   \<and> hex_to_rgb ''zzz'' = Inl (HTTPException 400 ''Invalid color: zzz'')
   \<and> \<not> accepted_hex ''#12345''
   \<and> hex_to_rgb ''#12345'' = Inl (HTTPException 400 ''Invalid color: #12345'')"
proof -
  have d: "is_hex_digit CHR ''1'' \<and> is_hex_digit CHR ''a'' \<and> is_hex_digit CHR ''F''"
    by (simp add: is_hex_digit_def)
  have a: "accepted_hex '' #1aF ''"
    by (simp add: accepted_hex_def hex_3_or_6_def strip_def is_space_def lstrip_hash_def
        is_hex_digit_def)
  have z: "\<not> accepted_hex ''zzz''"
    by (simp add: accepted_hex_def hex_3_or_6_def strip_def is_space_def lstrip_hash_def
        is_hex_digit_def)
  have f: "\<not> accepted_hex ''#12345''"
    by (simp add: accepted_hex_def hex_3_or_6_def strip_def is_space_def lstrip_hash_def
        is_hex_digit_def)
  have v: "hex_to_rgb ''11aaFF'' = Inr (17, 170, 255)" "hex_to_rgb '' #1aF '' = Inr (17, 170, 255)"
    by (simp_all add: hex_to_rgb_def strip_def is_space_def lstrip_hash_def is_hex_digit_def
        int16_def hex_val_def)
  show ?thesis
    using hex_to_rgb_parses [of "CHR ''1''" "CHR ''a''" "CHR ''F''" "''zzz''"]
      hex_to_rgb_parses [of "CHR ''1''" "CHR ''a''" "CHR ''F''" "''#12345''"] d a z f v
    by simp
qed

text \<open>
  A leading space, or a second \<^verbatim>\<open>#\<close>, is not removed by stripping one leading \<^verbatim>\<open>#\<close>, so
  what is left is not three or six hex digits; both inputs are accepted all the same.
\<close>

theorem hex_to_rgb_counterexample:
  "\<not> hex_3_or_6 (strip_one_hash '' fff'') \<and> hex_to_rgb '' fff'' = Inr (255, 255, 255)
   \<and> \<not> hex_3_or_6 (strip_one_hash ''##fff'') \<and> hex_to_rgb ''##fff'' = Inr (255, 255, 255)"
  by (simp add: hex_3_or_6_def strip_one_hash_def hex_to_rgb_def strip_def is_space_def
      lstrip_hash_def is_hex_digit_def int16_def hex_val_def)


section \<open>Properties of the raster renderer\<close>

lemma hex_chars_all:
  "list_all (\<lambda>d. is_hex_digit (hex_char d) \<and> hex_val (hex_char d) = int d) [0..<16]"
  by code_simp

lemma hex_char_digit: "d < 16 \<Longrightarrow> is_hex_digit (hex_char d)"
  and hex_val_hex_char: "d < 16 \<Longrightarrow> hex_val (hex_char d) = int d"
  using hex_chars_all by (simp_all add: list_all_iff)

lemma hex_digits_step:
  "16 \<le> n \<Longrightarrow> hex_digits n = hex_digits (n div 16) @ [hex_char (n mod 16)]"
  by (subst hex_digits.simps) simp

lemma hex_digits_small: "n < 16 \<Longrightarrow> hex_digits n = [hex_char n]"
  by (subst hex_digits.simps) simp

lemma zero_padded_hex_one: "n < 16 \<Longrightarrow> zero_padded_hex 1 n = [hex_char n]"
  by (simp add: zero_padded_hex_def hex_digits_small)

lemma hex_char_0: "hex_char 0 = CHR ''0''"
  by (simp add: hex_char_def)

lemma zero_padded_hex_Suc: "0 < k \<Longrightarrow> zero_padded_hex (Suc k) n = zero_padded_hex k (n div 16) @ [hex_char (n mod 16)]"
proof (cases "n < 16")
  case True
  assume k: "0 < k"
  have "zero_padded_hex k 0 = replicate k CHR ''0''"
    using k by (cases k) (simp_all add: zero_padded_hex_def hex_digits_small hex_char_0 replicate_append_same)
  then show ?thesis using True by (simp add: zero_padded_hex_def hex_digits_small)
next
  case False
  then show ?thesis by (simp add: zero_padded_hex_def hex_digits_step Suc_diff_le)
qed


lemma zero_padded_hex_6:
  assumes "n < 16777216"
  shows "zero_padded_hex 6 n =
    [hex_char (n div 1048576), hex_char (n div 65536 mod 16), hex_char (n div 4096 mod 16),
     hex_char (n div 256 mod 16), hex_char (n div 16 mod 16), hex_char (n mod 16)]"
proof -
  have six: "(6::nat) = Suc (Suc (Suc (Suc (Suc (Suc 0)))))" by simp
  have d2: "n div 16 div 16 = n div 256" by (simp flip: div_mult2_eq)
  have d3: "n div 256 div 16 = n div 4096" by (simp flip: div_mult2_eq)
  have d4: "n div 4096 div 16 = n div 65536" by (simp flip: div_mult2_eq)
  have d5: "n div 65536 div 16 = n div 1048576" by (simp flip: div_mult2_eq)
  have top: "n div 1048576 < 16" using assms by simp
  have "zero_padded_hex (Suc (Suc (Suc (Suc (Suc (Suc 0)))))) n =
      zero_padded_hex (Suc (Suc (Suc (Suc (Suc 0))))) (n div 16) @ [hex_char (n mod 16)]"
    by (rule zero_padded_hex_Suc) simp
  also have "zero_padded_hex (Suc (Suc (Suc (Suc (Suc 0))))) (n div 16) =
      zero_padded_hex (Suc (Suc (Suc (Suc 0)))) (n div 256) @ [hex_char (n div 16 mod 16)]"
    unfolding d2 [symmetric] by (rule zero_padded_hex_Suc) simp
  also have "zero_padded_hex (Suc (Suc (Suc (Suc 0)))) (n div 256) =
      zero_padded_hex (Suc (Suc (Suc 0))) (n div 4096) @ [hex_char (n div 256 mod 16)]"
    unfolding d3 [symmetric] by (rule zero_padded_hex_Suc) simp
  also have "zero_padded_hex (Suc (Suc (Suc 0))) (n div 4096) =
      zero_padded_hex (Suc (Suc 0)) (n div 65536) @ [hex_char (n div 4096 mod 16)]"
    unfolding d4 [symmetric] by (rule zero_padded_hex_Suc) simp
  also have "zero_padded_hex (Suc (Suc 0)) (n div 65536) =
      zero_padded_hex (Suc 0) (n div 1048576) @ [hex_char (n div 65536 mod 16)]"
    unfolding d5 [symmetric] by (rule zero_padded_hex_Suc) simp
  also have "zero_padded_hex (Suc 0) (n div 1048576) = [hex_char (n div 1048576)]"
    using top by (simp add: zero_padded_hex_def hex_digits_small)
  finally show ?thesis unfolding six by simp
qed


lemma hex_to_rgb_hash_six:
  assumes "list_all is_hex_digit [a, b, c, d, e, f]"
  shows "hex_to_rgb (CHR ''#'' # [a, b, c, d, e, f]) =
    Inr (16 * hex_val a + hex_val b, 16 * hex_val c + hex_val d, 16 * hex_val e + hex_val f)"
proof -
  have "\<not> is_space CHR ''#''" by (simp add: is_space_def)
  then have s: "strip (CHR ''#'' # [a, b, c, d, e, f]) = CHR ''#'' # [a, b, c, d, e, f]"
    using assms by (intro strip_hex_digits) (simp_all add: hex_digit_not_space)
  have l: "lstrip_hash (CHR ''#'' # [a, b, c, d, e, f]) = [a, b, c, d, e, f]"
    using assms by (simp add: lstrip_hash_def hex_digit_not_hash)
  show ?thesis
    using assms by (simp add: hex_to_rgb_def s l int16_pair)
qed

lemma two_digits:
  fixes m :: nat
  shows "16 * int (m div 16 mod 16) + int (m mod 16) = int (m mod 256)"
proof -
  have "m mod 256 = 16 * (m div 16 mod 16) + m mod 16"
    using mod_mult2_eq [of m 16 16] by simp
  then show ?thesis by simp
qed

lemma hex_to_rgb_format_06x:
  assumes "0 \<le> c" "c < 16777216"
  shows "hex_to_rgb (''#'' @ format_06x c) = Inr (c div 65536, c div 256 mod 256, c mod 256)"
proof -
  define n where "n = nat c"
  have n: "n < 16777216" and c: "c = int n" using assms by (simp_all add: n_def)
  have top: "n div 1048576 < 16" using n by simp
  have digs: "list_all is_hex_digit
     [hex_char (n div 1048576), hex_char (n div 65536 mod 16), hex_char (n div 4096 mod 16),
      hex_char (n div 256 mod 16), hex_char (n div 16 mod 16), hex_char (n mod 16)]"
    using top by (simp add: hex_char_digit)
  have r: "16 * int (n div 1048576) + int (n div 65536 mod 16) = int (n div 65536)"
  proof -
    have "n div 65536 div 16 = n div 1048576" by (simp flip: div_mult2_eq)
    then have "n div 65536 = 16 * (n div 1048576) + n div 65536 mod 16"
      using div_mult_mod_eq [of "n div 65536" 16] by simp
    then show ?thesis by linarith
  qed
  have g: "16 * int (n div 4096 mod 16) + int (n div 256 mod 16) = int (n div 256 mod 256)"
  proof -
    have "n div 256 div 16 = n div 4096" by (simp flip: div_mult2_eq)
    then show ?thesis using two_digits [of "n div 256"] by simp
  qed
  have b: "16 * int (n div 16 mod 16) + int (n mod 16) = int (n mod 256)"
    by (rule two_digits)
  have "hex_to_rgb (''#'' @ format_06x c) =
      Inr (int (n div 65536), int (n div 256 mod 256), int (n mod 256))"
    unfolding format_06x_def n_def [symmetric] zero_padded_hex_6 [OF n]
    using hex_to_rgb_hash_six [OF digs] top
    by (simp add: hex_val_hex_char r g b)
  then show ?thesis by (simp add: c zdiv_int zmod_int)
qed

lemma extract_thread_colors_nth:
  assumes "i < length (threadlist p)" "i < MAX_BLOCKS"
  shows "i < length (extract_thread_colors p)"
    and "hex_to_rgb (extract_thread_colors p ! i) = Inr (native_rgb (threadlist p ! i))"
proof -
  show "i < length (extract_thread_colors p)"
    using assms by (simp add: extract_thread_colors_def)
  have "extract_thread_colors p ! i = ''#'' @ format_06x (color (threadlist p ! i) mod 16777216)"
    using assms by (simp add: extract_thread_colors_def)
  then show "hex_to_rgb (extract_thread_colors p ! i) = Inr (native_rgb (threadlist p ! i))"
    using hex_to_rgb_format_06x [of "color (threadlist p ! i) mod 16777216"]
    by (simp add: native_rgb_def Let_def)
qed

lemma length_extract_thread_colors:
  "length (extract_thread_colors p) = min (length (threadlist p)) MAX_BLOCKS"
  by (simp add: extract_thread_colors_def)

lemma draw_blocks_Inr:
  assumes "draw_blocks i0 bs cs fb = Inr lines"
  shows "\<exists>cols. length cols = length bs
     \<and> (\<forall>j < length bs. block_color (i0 + j) cs fb = Inr (cols ! j))
     \<and> lines = concat (map (\<lambda>(col, b). map (\<lambda>s. Line s col 2) b) (zip cols bs))"
  using assms
proof (induction bs arbitrary: i0 lines)
  case Nil
  then show ?case by simp
next
  case (Cons b bs)
  from Cons.prems obtain col rest where col: "block_color i0 cs fb = Inr col"
    and rest: "draw_blocks (Suc i0) bs cs fb = Inr rest"
    and lines: "lines = map (\<lambda>s. Line s col 2) b @ rest"
    by (auto split: sum.splits)
  from Cons.IH [OF rest] obtain cols where len: "length cols = length bs"
    and all: "\<forall>j < length bs. block_color (Suc i0 + j) cs fb = Inr (cols ! j)"
    and r: "rest = concat (map (\<lambda>(col, b). map (\<lambda>s. Line s col 2) b) (zip cols bs))"
    by blast
  have "block_color (i0 + j) cs fb = Inr ((col # cols) ! j)" if "j < length (b # bs)" for j
    using that col all by (cases j) simp_all
  then show ?case
    using len lines r by (intro exI [of _ "col # cols"]) simp
qed


lemma render_preview_png_Inr:
  assumes "render_preview_png thr p bg_hex cs = Inr img"
  shows "\<exists>lines. draw_blocks 0
            (fst (normalize_blocks (take MAX_BLOCKS (pattern_to_blocks_clean thr p)) 40 900))
            cs (extract_thread_colors p) = Inr lines
          \<and> img_ops img = lines @
                [Rectangle (0, 900 - 26, 900, 900) (0, 0, 0),
                 Text (10, 900 - 20) ''jnbvisualizer proof (preview only)'' (255, 255, 255)]"
proof -
  obtain bs canvas where nb:
    "normalize_blocks (take MAX_BLOCKS (pattern_to_blocks_clean thr p)) 40 900 = (bs, canvas)"
    by (cases "normalize_blocks (take MAX_BLOCKS (pattern_to_blocks_clean thr p)) 40 900")
  have canvas: "canvas = 900"
    using nb by (auto simp: normalize_blocks_def Let_def split: if_splits)
  show ?thesis
    using assms
    by (auto simp: render_preview_png_def nb canvas Let_def split: sum.splits)
qed

text \<open>
  C4. The colour of block \<open>i\<close> is the override at index \<open>i\<close> when the override list has one,
  else the fallback thread colour at index \<open>i\<close> when there is one, else black. The drawing
  loop draws every segment of block \<open>j\<close> in that colour, and the rendered image is those
  lines followed by the watermark band. With an empty override list, block \<open>i\<close> is drawn in
  the colour of thread \<open>i\<close> of the pattern when the pattern has such a thread (and
  \<open>i < 20\<close>), else in black.
\<close>

theorem block_color_precedence:
  "(i < length cs \<longrightarrow> block_color i cs fb = hex_to_rgb (cs ! i))
   \<and> (length cs \<le> i \<and> i < length fb \<longrightarrow> block_color i cs fb = hex_to_rgb (fb ! i))
   \<and> (length cs \<le> i \<and> length fb \<le> i \<longrightarrow> block_color i cs fb = Inr (0, 0, 0))
   \<and> (draw_blocks 0 bs cs fb = Inr lines \<longrightarrow>
        (\<exists>cols. length cols = length bs
           \<and> (\<forall>j < length bs. block_color j cs fb = Inr (cols ! j))
           \<and> lines = concat (map (\<lambda>(col, b). map (\<lambda>s. Line s col 2) b) (zip cols bs))))
   \<and> (render_preview_png thr p bg_hex cs = Inr img \<longrightarrow>
        (\<exists>ls. draw_blocks 0
            (fst (normalize_blocks (take MAX_BLOCKS (pattern_to_blocks_clean thr p)) 40 900))
            cs (extract_thread_colors p) = Inr ls
          \<and> img_ops img = ls @
                [Rectangle (0, 900 - 26, 900, 900) (0, 0, 0),
                 Text (10, 900 - 20) ''jnbvisualizer proof (preview only)'' (255, 255, 255)]))
   \<and> (i < length (threadlist p) \<and> i < MAX_BLOCKS \<longrightarrow>
        block_color i [] (extract_thread_colors p) = Inr (native_rgb (threadlist p ! i)))
   \<and> (length (threadlist p) \<le> i \<or> MAX_BLOCKS \<le> i \<longrightarrow>
        block_color i [] (extract_thread_colors p) = Inr (0, 0, 0))"
proof (intro conjI impI)
  show "block_color i cs fb = hex_to_rgb (cs ! i)" if "i < length cs"
    using that by (simp add: block_color_def)
  show "block_color i cs fb = hex_to_rgb (fb ! i)" if "length cs \<le> i \<and> i < length fb"
    using that by (simp add: block_color_def)
  show "block_color i cs fb = Inr (0, 0, 0)" if "length cs \<le> i \<and> length fb \<le> i"
    using that by (simp add: block_color_def)
  show "\<exists>cols. length cols = length bs
           \<and> (\<forall>j < length bs. block_color j cs fb = Inr (cols ! j))
           \<and> lines = concat (map (\<lambda>(col, b). map (\<lambda>s. Line s col 2) b) (zip cols bs))"
    if "draw_blocks 0 bs cs fb = Inr lines"
    using draw_blocks_Inr [OF that] by simp
  show "\<exists>ls. draw_blocks 0
            (fst (normalize_blocks (take MAX_BLOCKS (pattern_to_blocks_clean thr p)) 40 900))
            cs (extract_thread_colors p) = Inr ls
          \<and> img_ops img = ls @
                [Rectangle (0, 900 - 26, 900, 900) (0, 0, 0),
                 Text (10, 900 - 20) ''jnbvisualizer proof (preview only)'' (255, 255, 255)]"
    if "render_preview_png thr p bg_hex cs = Inr img"
    using that by (rule render_preview_png_Inr)
  show "block_color i [] (extract_thread_colors p) = Inr (native_rgb (threadlist p ! i))"
    if "i < length (threadlist p) \<and> i < MAX_BLOCKS"
    using that extract_thread_colors_nth [of i p] by (simp add: block_color_def)
  show "block_color i [] (extract_thread_colors p) = Inr (0, 0, 0)"
    if "length (threadlist p) \<le> i \<or> MAX_BLOCKS \<le> i"
    using that by (auto simp: block_color_def length_extract_thread_colors)
qed

lemma example_blocks:
  "pattern_to_blocks_clean 45 \<lparr>stitches = [(0, 0, 0), (4, 2, 0)], threadlist = [\<lparr>color = 1193046\<rparr>]\<rparr>
   = [[(0, 0, 4, 2)]]"
  by (simp add: pattern_to_blocks_clean_def stitch_step_def ext_init_def ext_finish_def
      sqrt_gt_iff_sq)

lemma example_normalized:
  "normalize_blocks [[(0, 0, 4, 2)]] 40 900 = ([[(40, 40, 860, 450)]], 900)"
  by (simp add: normalize_blocks_def endpoints_def block_points_def norm_scale_def norm_width_def
      norm_height_def py_or_1_def extent_x_def extent_y_def)

lemma example_fallback:
  "extract_thread_colors \<lparr>stitches = [(0, 0, 0), (4, 2, 0)], threadlist = [\<lparr>color = 1193046\<rparr>]\<rparr>
   = [''#123456'']"
proof -
  have "zero_padded_hex 6 1193046 = ''123456''"
    by (subst zero_padded_hex_6) (simp_all add: hex_char_def)
  then show ?thesis
    by (simp add: extract_thread_colors_def MAX_BLOCKS_def format_06x_def)
qed

lemma example_white: "hex_to_rgb ''#ffffff'' = Inr (255, 255, 255)"
  by (simp add: hex_to_rgb_def strip_def is_space_def lstrip_hash_def is_hex_digit_def
      int16_def hex_val_def)

lemma example_render:
  "render_preview_png 45
     \<lparr>stitches = [(0, 0, 0), (4, 2, 0)], threadlist = [\<lparr>color = 1193046\<rparr>]\<rparr> ''#ffffff'' []
   = Inr \<lparr>img_size = (900, 900), img_fill = (255, 255, 255),
          img_ops = [Line (40, 40, 860, 450) (18, 52, 86) 2,
                     Rectangle (0, 874, 900, 900) (0, 0, 0),
                     Text (10, 880) ''jnbvisualizer proof (preview only)'' (255, 255, 255)]\<rparr>"
proof -
  have c: "block_color 0 [] [''#123456''] = Inr (18, 52, 86)"
    by (simp add: block_color_def hex_to_rgb_def strip_def is_space_def lstrip_hash_def
        is_hex_digit_def int16_def hex_val_def)
  show ?thesis
    unfolding render_preview_png_def example_blocks example_fallback
    by (simp add: MAX_BLOCKS_def example_normalized example_white c)
qed

text \<open>
  One override and two fallback colours: block 0 takes the override, block 1 the second
  fallback, block 2 black. With no override, the only block of a one-thread pattern is
  drawn in that thread's colour \<^verbatim>\<open>0x123456\<close>.
\<close>

theorem block_color_precedence_witness:
  "block_color 0 [''#ff0000''] [''#00ff00'', ''#0000ff''] = Inr (255, 0, 0)
   \<and> block_color 1 [''#ff0000''] [''#00ff00'', ''#0000ff''] = Inr (0, 0, 255)
   \<and> block_color 2 [''#ff0000''] [''#00ff00'', ''#0000ff''] = Inr (0, 0, 0)
   \<and> draw_blocks 0 [[(0, 0, 1, 1)], [(1, 1, 2, 2)]] [''#ff0000''] [''#00ff00'', ''#0000ff'']
       = Inr [Line (0, 0, 1, 1) (255, 0, 0) 2, Line (1, 1, 2, 2) (0, 0, 255) 2]
   \<and> block_color 0 []
        (extract_thread_colors
          \<lparr>stitches = [(0, 0, 0), (4, 2, 0)], threadlist = [\<lparr>color = 1193046\<rparr>]\<rparr>)
       = Inr (18, 52, 86)
   \<and> block_color 1 []
        (extract_thread_colors
          \<lparr>stitches = [(0, 0, 0), (4, 2, 0)], threadlist = [\<lparr>color = 1193046\<rparr>]\<rparr>)
       = Inr (0, 0, 0)
   \<and> render_preview_png 45
        \<lparr>stitches = [(0, 0, 0), (4, 2, 0)], threadlist = [\<lparr>color = 1193046\<rparr>]\<rparr> ''#ffffff'' []
       = Inr \<lparr>img_size = (900, 900), img_fill = (255, 255, 255),
              img_ops = [Line (40, 40, 860, 450) (18, 52, 86) 2,
                         Rectangle (0, 874, 900, 900) (0, 0, 0),
                         Text (10, 880) ''jnbvisualizer proof (preview only)'' (255, 255, 255)]\<rparr>"
proof -
  let ?cs = "[''#ff0000'']" and ?fb = "[''#00ff00'', ''#0000ff'']"
  let ?p = "\<lparr>stitches = [(0, 0, 0), (4, 2, 0)], threadlist = [\<lparr>color = 1193046\<rparr>]\<rparr>"
  have h: "hex_to_rgb ''#ff0000'' = Inr (255, 0, 0)" "hex_to_rgb ''#0000ff'' = Inr (0, 0, 255)"
    by (simp_all add: hex_to_rgb_def strip_def is_space_def lstrip_hash_def is_hex_digit_def
        int16_def hex_val_def)
  have c0: "block_color 0 ?cs ?fb = Inr (255, 0, 0)"
    using block_color_precedence [of 0 ?cs ?fb] h by simp
  have c1: "block_color 1 ?cs ?fb = Inr (0, 0, 255)"
    using block_color_precedence [of 1 ?cs ?fb] h by simp
  have c2: "block_color 2 ?cs ?fb = Inr (0, 0, 0)"
    using block_color_precedence [of 2 ?cs ?fb] by simp
  have d: "draw_blocks 0 [[(0, 0, 1, 1)], [(1, 1, 2, 2)]] ?cs ?fb
       = Inr [Line (0, 0, 1, 1) (255, 0, 0) 2, Line (1, 1, 2, 2) (0, 0, 255) 2]"
    using c0 c1 by simp
  have n: "native_rgb \<lparr>color = 1193046\<rparr> = (18, 52, 86)"
    by (simp add: native_rgb_def)
  have f0: "block_color 0 [] (extract_thread_colors ?p) = Inr (18, 52, 86)"
    using block_color_precedence [of 0 "[]" "[]" "[]" "[]" 45 ?p "''#ffffff''"] n
    by (simp add: MAX_BLOCKS_def)
  have f1: "block_color 1 [] (extract_thread_colors ?p) = Inr (0, 0, 0)"
    using block_color_precedence [of 1 "[]" "[]" "[]" "[]" 45 ?p "''#ffffff''"] by simp
  show ?thesis
    using c0 c1 c2 d f0 f1 example_render by simp
qed

section \<open>Properties of the recolor writer\<close>

lemma recolor_loop_ok:
  assumes "\<forall>i \<in> set ixs. hex_to_rgb_int (cs ! i) = Inr (v i)" "distinct ixs"
    "\<forall>i \<in> set ixs. i < length ts"
  shows "\<exists>ts'. recolor_loop ixs cs ts = (None, ts') \<and> length ts' = length ts
     \<and> (\<forall>j < length ts. ts' ! j = (if j \<in> set ixs then (ts ! j)\<lparr>color := v j\<rparr> else ts ! j))"
  using assms
proof (induction ixs arbitrary: ts)
  case Nil
  then show ?case by simp
next
  case (Cons i ixs)
  define ts1 where "ts1 = ts[i := (ts ! i)\<lparr>color := v i\<rparr>]"
  have len: "length ts1 = length ts" by (simp add: ts1_def)
  have step: "recolor_loop (i # ixs) cs ts = recolor_loop ixs cs ts1"
    using Cons.prems(1) by (simp add: ts1_def)
  have "\<exists>ts'. recolor_loop ixs cs ts1 = (None, ts') \<and> length ts' = length ts1
     \<and> (\<forall>j < length ts1. ts' ! j = (if j \<in> set ixs then (ts1 ! j)\<lparr>color := v j\<rparr> else ts1 ! j))"
    using Cons.prems by (intro Cons.IH) (simp_all add: len)
  then obtain ts' where r: "recolor_loop ixs cs ts1 = (None, ts')" "length ts' = length ts1"
    and el: "\<forall>j < length ts1. ts' ! j = (if j \<in> set ixs then (ts1 ! j)\<lparr>color := v j\<rparr> else ts1 ! j)"
    by blast
  have "ts' ! j = (if j \<in> set (i # ixs) then (ts ! j)\<lparr>color := v j\<rparr> else ts ! j)"
    if "j < length ts" for j
  proof (cases "j = i")
    case True
    then have "j \<notin> set ixs" using Cons.prems(2) by simp
    then show ?thesis using el that len True by (simp add: ts1_def)
  next
    case False
    then have "ts1 ! j = ts ! j" by (simp add: ts1_def)
    then show ?thesis using el that len False by simp
  qed
  then show ?case using r len step by simp
qed

text \<open>
  C7. When the decoded master pattern has an empty thread list, the recolor writer fails
  with the "no thread list" error (status 500), the pattern is as it was decoded, and no
  file is written.
\<close>

theorem recolor_no_thread_list:
  assumes "threadlist p = []"
  shows "generate_recolored_pes fs p colors_hex out_path =
           (Inl (HTTPException 500 ''Master PES has no thread list.''), p, fs)"
  using assms by (simp add: generate_recolored_pes_def)

text \<open>A pattern with stitches and no thread: the error, and the files stay empty.\<close>

theorem recolor_no_thread_list_witness:
  "threadlist \<lparr>stitches = [(0, 0, 0), (4, 2, 0)], threadlist = []\<rparr> = []
   \<and> generate_recolored_pes Map.empty \<lparr>stitches = [(0, 0, 0), (4, 2, 0)], threadlist = []\<rparr>
        [''#ff0000''] ''generated/A__client__JNB-0A1B2C3D.pes''
       = (Inl (HTTPException 500 ''Master PES has no thread list.''),
          \<lparr>stitches = [(0, 0, 0), (4, 2, 0)], threadlist = []\<rparr>, Map.empty)"
proof -
  have e: "threadlist \<lparr>stitches = [(0, 0, 0), (4, 2, 0)], threadlist = []\<rparr> = []" by simp
  show ?thesis
    using recolor_no_thread_list [OF e, of Map.empty "[''#ff0000'']"
        "''generated/A__client__JNB-0A1B2C3D.pes''"] e
    by simp
qed

text \<open>
  C8. With a non-empty thread list of length \<open>T\<close> and \<open>C\<close> supplied colours, the first
  \<open>min T C\<close> of which parse to the values \<open>v i\<close>, the writer succeeds and writes the pattern
  whose thread list has the same length, colour \<open>v i\<close> at every index below \<open>min T C\<close>, and
  the original entry at every index from \<open>min T C\<close> on; the stitches are unchanged.
\<close>

theorem recolor_overwrites_prefix:
  assumes "threadlist p \<noteq> []"
    and "\<forall>i < min (length (threadlist p)) (length colors_hex).
           hex_to_rgb_int (colors_hex ! i) = Inr (v i)"
  shows "\<exists>p'. generate_recolored_pes fs p colors_hex out_path = (Inr out_path, p', fs(out_path \<mapsto> p'))
     \<and> stitches p' = stitches p
     \<and> length (threadlist p') = length (threadlist p)
     \<and> (\<forall>i < length (threadlist p).
           threadlist p' ! i =
             (if i < min (length (threadlist p)) (length colors_hex)
              then (threadlist p ! i)\<lparr>color := v i\<rparr> else threadlist p ! i))"
proof -
  define n where "n = min (length (threadlist p)) (length colors_hex)"
  have "\<exists>ts'. recolor_loop [0..<n] colors_hex (threadlist p) = (None, ts')
     \<and> length ts' = length (threadlist p)
     \<and> (\<forall>j < length (threadlist p).
          ts' ! j = (if j \<in> set [0..<n] then (threadlist p ! j)\<lparr>color := v j\<rparr> else threadlist p ! j))"
    using assms(2) by (intro recolor_loop_ok) (simp_all add: n_def)
  then obtain ts' where r: "recolor_loop [0..<n] colors_hex (threadlist p) = (None, ts')"
    and len: "length ts' = length (threadlist p)"
    and el: "\<forall>j < length (threadlist p).
          ts' ! j = (if j \<in> set [0..<n] then (threadlist p ! j)\<lparr>color := v j\<rparr> else threadlist p ! j)"
    by blast
  have g: "generate_recolored_pes fs p colors_hex out_path =
      (Inr out_path, p\<lparr>threadlist := ts'\<rparr>, fs(out_path \<mapsto> p\<lparr>threadlist := ts'\<rparr>))"
    using assms(1) r by (simp add: generate_recolored_pes_def n_def Let_def)
  show ?thesis
    using g len el by (intro exI [of _ "p\<lparr>threadlist := ts'\<rparr>"]) (simp add: n_def)
qed

text \<open>Three threads and two colours: the first two entries are overwritten, the third is kept.\<close>

lemma example_colors:
  "hex_to_rgb_int ''#ff0000'' = Inr 16711680" "hex_to_rgb_int ''0f0'' = Inr 65280"
  by (simp_all add: hex_to_rgb_int_def strip_def is_space_def lstrip_hash_def is_hex_digit_def
      int16_def hex_val_def)

theorem recolor_overwrites_prefix_witness:
  "threadlist \<lparr>stitches = [], threadlist = [\<lparr>color = 1\<rparr>, \<lparr>color = 2\<rparr>, \<lparr>color = 3\<rparr>]\<rparr> \<noteq> []
   \<and> hex_to_rgb_int ''#ff0000'' = Inr 16711680 \<and> hex_to_rgb_int ''0f0'' = Inr 65280
   \<and> (\<exists>p'. generate_recolored_pes Map.empty
          \<lparr>stitches = [], threadlist = [\<lparr>color = 1\<rparr>, \<lparr>color = 2\<rparr>, \<lparr>color = 3\<rparr>]\<rparr>
          [''#ff0000'', ''0f0''] ''out.pes''
        = (Inr ''out.pes'', p', [''out.pes'' \<mapsto> p'])
      \<and> length (threadlist p') = 3
      \<and> threadlist p' ! 0 = \<lparr>color = 16711680\<rparr>
      \<and> threadlist p' ! 1 = \<lparr>color = 65280\<rparr>
      \<and> threadlist p' ! 2 = \<lparr>color = 3\<rparr>)"
proof -
  let ?p = "\<lparr>stitches = [], threadlist = [\<lparr>color = 1\<rparr>, \<lparr>color = 2\<rparr>, \<lparr>color = 3\<rparr>]\<rparr>"
  let ?cs = "[''#ff0000'', ''0f0'']"
  let ?v = "\<lambda>i::nat. if i = 0 then 16711680 else (65280::int)"
  have ne: "threadlist ?p \<noteq> []" by simp
  have ok: "\<forall>i < min (length (threadlist ?p)) (length ?cs). hex_to_rgb_int (?cs ! i) = Inr (?v i)"
    by (simp add: example_colors less_Suc_eq numeral_2_eq_2)
  from recolor_overwrites_prefix [OF ne ok, of Map.empty "''out.pes''"]
  obtain p' where g: "generate_recolored_pes Map.empty ?p ?cs ''out.pes''
        = (Inr ''out.pes'', p', [''out.pes'' \<mapsto> p'])"
    and len: "length (threadlist p') = length (threadlist ?p)"
    and el: "\<forall>i < length (threadlist ?p). threadlist p' ! i =
             (if i < min (length (threadlist ?p)) (length ?cs)
              then (threadlist ?p ! i)\<lparr>color := ?v i\<rparr> else threadlist ?p ! i)"
    by blast
  have "threadlist p' ! 0 = \<lparr>color = 16711680\<rparr>" using el [rule_format, of 0] by simp
  moreover have "threadlist p' ! 1 = \<lparr>color = 65280\<rparr>" using el [rule_format, of 1] by simp
  moreover have "threadlist p' ! 2 = \<lparr>color = 3\<rparr>" using el [rule_format, of 2] by simp
  moreover have "length (threadlist p') = 3" using len by simp
  ultimately show ?thesis using g ne example_colors by blast
qed

end
